theory Spec2Isabelle
  imports
    Complex_Main
    "HOL-Library.Word"
    "HOL-Library.Char_ord"
    "HOL-Library.List_Lexorder"
    "HOL-Library.Sublist"
begin

section \<open>The imaging library, as far as alpha_core uses it\<close>

text \<open>
  alpha_core works on decoded images of the imaging library (PIL). An image has a mode,
  a size (width, height) and one sample of each band per pixel, in row order; samples
  are unsigned bytes. The modes modelled are the ones \<^verbatim>\<open>io.py\<close> names,
  \<^item> \<^verbatim>\<open>L\<close> (grey) and \<^verbatim>\<open>RGB\<close>, each with the optional
    \<^verbatim>\<open>info["transparency"]\<close> colour a decoder may attach (PNG tRNS),
  \<^item> \<^verbatim>\<open>P\<close> (indices into a palette of 256 RGBA entries, the transparency table
    applied),
  \<^item> \<^verbatim>\<open>RGBA\<close>,

  and two modes that stand for the ones the library has no converter from:
  \<^verbatim>\<open>La\<close> (grey with premultiplied alpha) and \<^verbatim>\<open>LAB\<close>.
\<close>

type_synonym byte = "8 word"
type_synonym rgb = "byte \<times> byte \<times> byte"
type_synonym rgba = "byte \<times> byte \<times> byte \<times> byte"
type_synonym dims = "nat \<times> nat"

datatype image =
    ImL dims "byte option" "byte list"
  | ImP dims "byte \<Rightarrow> rgba" "byte list"
  | ImRGB dims "rgb option" "rgb list"
  | ImRGBA dims "rgba list"
  | ImLa dims "(byte \<times> byte) list"
  | ImLAB dims "rgb list"

fun mode_of :: "image \<Rightarrow> string" where
  "mode_of (ImL d tr px) = ''L''"
| "mode_of (ImP d pal px) = ''P''"
| "mode_of (ImRGB d tr px) = ''RGB''"
| "mode_of (ImRGBA d px) = ''RGBA''"
| "mode_of (ImLa d px) = ''La''"
| "mode_of (ImLAB d px) = ''LAB''"

fun size_of :: "image \<Rightarrow> dims" where
  "size_of (ImL d tr px) = d"
| "size_of (ImP d pal px) = d"
| "size_of (ImRGB d tr px) = d"
| "size_of (ImRGBA d px) = d"
| "size_of (ImLa d px) = d"
| "size_of (ImLAB d px) = d"

text \<open>\<^verbatim>\<open>Image.getbands()\<close>: the names of the bands of the image's mode.\<close>

fun getbands :: "image \<Rightarrow> string list" where
  "getbands (ImL d tr px) = [''L'']"
| "getbands (ImP d pal px) = [''P'']"
| "getbands (ImRGB d tr px) = [''R'', ''G'', ''B'']"
| "getbands (ImRGBA d px) = [''R'', ''G'', ''B'', ''A'']"
| "getbands (ImLa d px) = [''L'', ''a'']"
| "getbands (ImLAB d px) = [''L'', ''A'', ''B'']"

text \<open>
  The library's grey conversion is the ITU-R 601-2 luma transform, computed in 16-bit
  fixed point with rounding: \<^verbatim>\<open>(R*19595 + G*38470 + B*7471 + 0x8000) >> 16\<close>.
\<close>

definition luma :: "rgb \<Rightarrow> byte" where
  "luma = (\<lambda>(r, g, b).
     of_nat ((unat r * 19595 + unat g * 38470 + unat b * 7471 + 32768) div 65536))"

definition drop_alpha :: "rgba \<Rightarrow> rgb" where
  "drop_alpha = (\<lambda>(r, g, b, a). (r, g, b))"

definition grey :: "byte \<Rightarrow> rgb" where
  "grey v = (v, v, v)"

text \<open>
  The alpha a colour gets when its image is promoted to \<^verbatim>\<open>RGBA\<close>: 0 when it is the
  image's transparency colour, 255 otherwise.
\<close>

definition with_alpha :: "rgb option \<Rightarrow> rgb \<Rightarrow> rgba" where
  "with_alpha tr c = (case c of (r, g, b) \<Rightarrow> (r, g, b, if tr = Some c then 0 else 255))"

text \<open>
  alpha_core raises one class of its own, \<^verbatim>\<open>AlphaIOError\<close>, with a message; the
  message is kept as a value, each constructor standing for one message text of the
  source:
  \<^item> \<open>NoAlphaChannel\<close>: "Image has no alpha channel."
  \<^item> \<open>SizeMismatch m r\<close>: "Mask size m does not match RGB size r."
  \<^item> \<open>ThresholdRange\<close>: "threshold must be between 0 and 255"
  \<^item> \<open>ToleranceRange\<close>: "tolerance must be between 0 and 255"
  \<^item> \<open>UnknownKind k\<close>: "Unknown generation kind: k"
  \<^item> \<open>LoadFailed p\<close>: "Failed to load image: p (...)"
  \<^item> \<open>SaveFailed p\<close>: "Failed to save PNG: p (...)"
  \<^item> \<open>RefuseOverwrite p\<close>: "Refusing to overwrite existing file: p"

  The other constructors are exceptions of the interpreter and of the libraries.
\<close>

datatype alpha_msg =
    NoAlphaChannel
  | SizeMismatch dims dims
  | ThresholdRange
  | ToleranceRange
  | UnknownKind string
  | LoadFailed string
  | SaveFailed string
  | RefuseOverwrite string

datatype error = AlphaIOError alpha_msg | ValueError | IndexError | OverflowError | OSError

text \<open>
  \<^verbatim>\<open>img.convert(m)\<close> for the three target modes the code asks for. Converting to
  \<^verbatim>\<open>RGBA\<close> gives a grey or colour pixel full alpha (255) unless it has the image's
  transparency colour, and a palette pixel the alpha of its palette entry; converting
  \<^verbatim>\<open>RGBA\<close> to \<^verbatim>\<open>RGB\<close> drops the alpha band (no compositing); converting to
  \<^verbatim>\<open>L\<close> takes the luma of the colour. Between \<^verbatim>\<open>L\<close> and \<^verbatim>\<open>RGB\<close> the
  transparency colour is converted with the pixels; a palette image is converted without
  one. A mode without a converter raises \<^verbatim>\<open>ValueError\<close>.
\<close>

fun convert_RGBA :: "image \<Rightarrow> error + image" where
  "convert_RGBA (ImL d tr px) = Inr (ImRGBA d (map (with_alpha (map_option grey tr) \<circ> grey) px))"
| "convert_RGBA (ImP d pal px) = Inr (ImRGBA d (map pal px))"
| "convert_RGBA (ImRGB d tr px) = Inr (ImRGBA d (map (with_alpha tr) px))"
| "convert_RGBA (ImRGBA d px) = Inr (ImRGBA d px)"
| "convert_RGBA (ImLa d px) = Inl ValueError"
| "convert_RGBA (ImLAB d px) = Inl ValueError"

fun convert_RGB :: "image \<Rightarrow> error + image" where
  "convert_RGB (ImL d tr px) = Inr (ImRGB d (map_option grey tr) (map grey px))"
| "convert_RGB (ImP d pal px) = Inr (ImRGB d None (map (drop_alpha \<circ> pal) px))"
| "convert_RGB (ImRGB d tr px) = Inr (ImRGB d tr px)"
| "convert_RGB (ImRGBA d px) = Inr (ImRGB d None (map drop_alpha px))"
| "convert_RGB (ImLa d px) = Inl ValueError"
| "convert_RGB (ImLAB d px) = Inl ValueError"

fun convert_L :: "image \<Rightarrow> error + image" where
  "convert_L (ImL d tr px) = Inr (ImL d tr px)"
| "convert_L (ImP d pal px) = Inr (ImL d None (map (luma \<circ> drop_alpha \<circ> pal) px))"
| "convert_L (ImRGB d tr px) = Inr (ImL d (map_option luma tr) (map luma px))"
| "convert_L (ImRGBA d px) = Inr (ImL d None (map (luma \<circ> drop_alpha) px))"
| "convert_L (ImLa d px) = Inl ValueError"
| "convert_L (ImLAB d px) = Inl ValueError"

text \<open>\<^verbatim>\<open>Image.split()\<close>: one \<^verbatim>\<open>L\<close> image per band.\<close>

fun split_bands :: "image \<Rightarrow> image list" where
  "split_bands (ImL d tr px) = [ImL d tr px]"
| "split_bands (ImP d pal px) = [ImL d None px]"
| "split_bands (ImRGB d tr px) =
     [ImL d None (map (\<lambda>(r, g, b). r) px), ImL d None (map (\<lambda>(r, g, b). g) px),
      ImL d None (map (\<lambda>(r, g, b). b) px)]"
| "split_bands (ImRGBA d px) =
     [ImL d None (map (\<lambda>(r, g, b, a). r) px), ImL d None (map (\<lambda>(r, g, b, a). g) px),
      ImL d None (map (\<lambda>(r, g, b, a). b) px), ImL d None (map (\<lambda>(r, g, b, a). a) px)]"
| "split_bands (ImLa d px) = [ImL d None (map fst px), ImL d None (map snd px)]"
| "split_bands (ImLAB d px) =
     [ImL d None (map (\<lambda>(r, g, b). r) px), ImL d None (map (\<lambda>(r, g, b). g) px),
      ImL d None (map (\<lambda>(r, g, b). b) px)]"

text \<open>
  \<^verbatim>\<open>Image.merge(mode, bands)\<close>: the number of bands must be the mode's, every band
  must be an \<^verbatim>\<open>L\<close> image, and all must have the size of the first; otherwise
  \<^verbatim>\<open>ValueError\<close>.
\<close>

fun zip3 :: "'a list \<Rightarrow> 'b list \<Rightarrow> 'c list \<Rightarrow> ('a \<times> 'b \<times> 'c) list" where
  "zip3 (x # xs) (y # ys) (z # zs) = (x, y, z) # zip3 xs ys zs"
| "zip3 xs ys zs = []"

fun zip4 :: "'a list \<Rightarrow> 'b list \<Rightarrow> 'c list \<Rightarrow> 'd list \<Rightarrow> ('a \<times> 'b \<times> 'c \<times> 'd) list" where
  "zip4 (x # xs) (y # ys) (z # zs) (u # us) = (x, y, z, u) # zip4 xs ys zs us"
| "zip4 xs ys zs us = []"

fun merge :: "string \<Rightarrow> image list \<Rightarrow> error + image" where
  "merge m [ImL d1 t1 p1, ImL d2 t2 p2, ImL d3 t3 p3] =
     (if m = ''RGB'' \<and> d2 = d1 \<and> d3 = d1 then Inr (ImRGB d1 None (zip3 p1 p2 p3))
      else Inl ValueError)"
| "merge m [ImL d1 t1 p1, ImL d2 t2 p2, ImL d3 t3 p3, ImL d4 t4 p4] =
     (if m = ''RGBA'' \<and> d2 = d1 \<and> d3 = d1 \<and> d4 = d1
      then Inr (ImRGBA d1 (zip4 p1 p2 p3 p4))
      else Inl ValueError)"
| "merge m bands = Inl ValueError"

text \<open>\<^verbatim>\<open>Image.new("L", size, color)\<close>: a grey image of one value.\<close>

definition new_L :: "dims \<Rightarrow> byte \<Rightarrow> image" where
  "new_L d c = ImL d None (replicate (fst d * snd d) c)"

text \<open>\<^verbatim>\<open>Image.eval(img, f)\<close>: \<open>f\<close> applied to every sample of every band.\<close>

fun eval_image :: "image \<Rightarrow> (byte \<Rightarrow> byte) \<Rightarrow> image" where
  "eval_image (ImL d tr px) f = ImL d tr (map f px)"
| "eval_image (ImP d pal px) f = ImP d pal (map f px)"
| "eval_image (ImRGB d tr px) f = ImRGB d tr (map (\<lambda>(r, g, b). (f r, f g, f b)) px)"
| "eval_image (ImRGBA d px) f = ImRGBA d (map (\<lambda>(r, g, b, a). (f r, f g, f b, f a)) px)"
| "eval_image (ImLa d px) f = ImLa d (map (\<lambda>(l, a). (f l, f a)) px)"
| "eval_image (ImLAB d px) f = ImLAB d (map (\<lambda>(r, g, b). (f r, f g, f b)) px)"

text \<open>
  Resampling filters. \<^verbatim>\<open>Image.resize\<close> itself is the library's; the functions that
  call it take it as the parameter \<open>resize\<close>, from an image, a target size and a filter
  to an image.
\<close>

datatype resampling = NEAREST | BILINEAR

type_synonym resizer = "image \<Rightarrow> dims \<Rightarrow> resampling \<Rightarrow> image"

section \<open>io.py: format canonicalization\<close>

definition ensure_rgba :: "image \<Rightarrow> error + image" where
  "ensure_rgba img =
     (if mode_of img = ''RGBA'' then Inr img
      else if mode_of img = ''P'' then convert_RGBA img
      else convert_RGBA img)"

definition ensure_rgb :: "image \<Rightarrow> error + image" where
  "ensure_rgb img =
     (if mode_of img = ''RGB'' then Inr img
      else if mode_of img = ''RGBA'' then convert_RGB img
      else if mode_of img = ''P'' then convert_RGB img
      else convert_RGB img)"

definition ensure_l :: "image \<Rightarrow> error + image" where
  "ensure_l img =
     (if mode_of img = ''L'' then Inr img
      else if mode_of img = ''RGBA''
      then (case convert_RGB img of Inl e \<Rightarrow> Inl e | Inr rgb \<Rightarrow> convert_L rgb)
      else if mode_of img = ''RGB'' then convert_L img
      else convert_L img)"

section \<open>Paths and the file system\<close>

text \<open>
  A path is the list of its parts, as \<^verbatim>\<open>pathlib\<close> keeps it (POSIX flavour):
  \<^verbatim>\<open>Path("/a/b.png")\<close> is \<open>[''/'', ''a'', ''b.png'']\<close>, \<^verbatim>\<open>Path("a/b.png")\<close> is
  \<open>[''a'', ''b.png'']\<close> and \<^verbatim>\<open>Path()\<close> is \<open>[]\<close>. The root, \<open>''/''\<close> or \<open>''//''\<close>,
  is the first part of an absolute path. Paths are compared part by part.
\<close>

type_synonym path = "string list"

definition is_root :: "string \<Rightarrow> bool" where
  "is_root x \<longleftrightarrow> x = ''/'' \<or> x = ''//''"

fun join_parts :: "string list \<Rightarrow> string" where
  "join_parts [] = []"
| "join_parts [x] = x"
| "join_parts (x # y # ys) = x @ ''/'' @ join_parts (y # ys)"

definition str_path :: "path \<Rightarrow> string" where
  "str_path p =
     (case p of
        [] \<Rightarrow> ''.''
      | x # xs \<Rightarrow> if is_root x then x @ join_parts xs else join_parts (x # xs))"

definition path_name :: "path \<Rightarrow> string" where
  "path_name p = (if p = [] \<or> (length p = 1 \<and> is_root (hd p)) then [] else last p)"

text \<open>\<^verbatim>\<open>s.split(c)\<close>: the pieces of \<open>s\<close> between the occurrences of \<open>c\<close>.\<close>

fun split_on :: "char \<Rightarrow> string \<Rightarrow> string list" where
  "split_on c [] = [[]]"
| "split_on c (x # xs) =
     (if x = c then [] # split_on c xs
      else (case split_on c xs of
              y # ys \<Rightarrow> (x # y) # ys
            | [] \<Rightarrow> [[x]]))"

text \<open>
  \<^verbatim>\<open>Path(s)\<close>: the string is cut at the slashes; empty pieces and \<open>''.''\<close> are
  dropped; exactly two leading slashes make the root \<open>''//''\<close>, one or more than two
  the root \<open>''/''\<close>. \<^verbatim>\<open>d / s\<close> is \<open>Path(s)\<close> when that is absolute, and the parts of
  \<open>d\<close> followed by its parts otherwise.
\<close>

definition parse_path :: "string \<Rightarrow> path" where
  "parse_path s =
     (let parts = filter (\<lambda>x. x \<noteq> [] \<and> x \<noteq> ''.'') (split_on CHR ''/'' s) in
      if take 2 s = ''//'' \<and> take 3 s \<noteq> ''///'' then ''//'' # parts
      else if take 1 s = ''/'' then ''/'' # parts
      else parts)"

definition joinpath :: "path \<Rightarrow> string \<Rightarrow> path" where
  "joinpath d s =
     (let q = parse_path s in
      if q \<noteq> [] \<and> is_root (hd q) then q else d @ q)"

text \<open>\<^verbatim>\<open>s.rfind(c)\<close>: the last index of \<open>c\<close> in \<open>s\<close>, if there is one.\<close>

definition rfind :: "char \<Rightarrow> string \<Rightarrow> nat option" where
  "rfind c s =
     (if c \<in> set s then Some (length s - 1 - length (takeWhile (\<lambda>x. x \<noteq> c) (rev s)))
      else None)"

text \<open>
  \<^verbatim>\<open>p.suffix\<close> and \<^verbatim>\<open>p.stem\<close>: the name is cut at its last dot, unless that dot
  is the first or the last character of the name.
\<close>

definition path_suffix :: "path \<Rightarrow> string" where
  "path_suffix p =
     (let n = path_name p in
      case rfind CHR ''.'' n of
        Some i \<Rightarrow> if 0 < i \<and> i < length n - 1 then drop i n else []
      | None \<Rightarrow> [])"

definition path_stem :: "path \<Rightarrow> string" where
  "path_stem p =
     (let n = path_name p in
      case rfind CHR ''.'' n of
        Some i \<Rightarrow> if 0 < i \<and> i < length n - 1 then take i n else n
      | None \<Rightarrow> n)"

text \<open>\<^verbatim>\<open>p.with_suffix("")\<close>: \<^verbatim>\<open>ValueError\<close> when the path has an empty name.\<close>

definition with_suffix_empty :: "path \<Rightarrow> error + path" where
  "with_suffix_empty p =
     (if path_name p = [] then Inl ValueError else Inr (butlast p @ [path_stem p]))"

text \<open>
  \<^verbatim>\<open>s.lower()\<close> is the interpreter's, with its Unicode tables. The functions that
  call it take it as the parameter \<open>lower\<close>. On strings of ASCII characters it is
  \<open>ascii_lower\<close>.
\<close>

type_synonym lowercase = "string \<Rightarrow> string"

definition ascii_lower :: lowercase where
  "ascii_lower s =
     map (\<lambda>c. if CHR ''A'' \<le> c \<and> c \<le> CHR ''Z'' then char_of (of_char c + (32 :: nat)) else c) s"

text \<open>
  The file system is what the code can observe of it, and changes by state passing:
  whether a path is a file or a directory, what \<^verbatim>\<open>p.rglob("*")\<close> lists below a
  directory (in the order the system gives), the resolved absolute path as a string,
  the image the codec decodes from a file (none when opening or loading fails), and
  whether the system lets a file be written at a path.
\<close>

record filesystem =
  is_file :: "path \<Rightarrow> bool"
  is_dir :: "path \<Rightarrow> bool"
  rglob :: "path \<Rightarrow> path list"
  resolve :: "path \<Rightarrow> string"
  decode :: "path \<Rightarrow> image option"
  writable :: "path \<Rightarrow> bool"

definition path_exists :: "filesystem \<Rightarrow> path \<Rightarrow> bool" where
  "path_exists fs p \<longleftrightarrow> is_file fs p \<or> is_dir fs p"

section \<open>io.py: loading, saving, discovery\<close>

definition SUPPORTED_IMAGE_EXTS :: "string list" where
  "SUPPORTED_IMAGE_EXTS =
     [''.png'', ''.tga'', ''.tif'', ''.tiff'', ''.bmp'', ''.webp'', ''.jpg'', ''.jpeg'']"

text \<open>
  \<^verbatim>\<open>path.mkdir(parents=True, exist_ok=True)\<close>: fails when the path or one of its
  parents is a file; otherwise the path and its parents are directories afterwards.
\<close>

definition safe_mkdir :: "filesystem \<Rightarrow> path \<Rightarrow> (error + unit) \<times> filesystem" where
  "safe_mkdir fs d =
     (if list_ex (is_file fs) (prefixes d) then (Inl OSError, fs)
      else (Inr (), fs\<lparr>is_dir := (\<lambda>q. is_dir fs q \<or> (q \<noteq> [] \<and> prefix q d))\<rparr>))"

definition is_image_file :: "lowercase \<Rightarrow> filesystem \<Rightarrow> path \<Rightarrow> bool" where
  "is_image_file lower fs p \<longleftrightarrow>
     is_file fs p \<and> lower (path_suffix p) \<in> set SUPPORTED_IMAGE_EXTS"

definition load_image :: "filesystem \<Rightarrow> path \<Rightarrow> error + image" where
  "load_image fs p =
     (case decode fs p of
        Some img \<Rightarrow> Inr img
      | None \<Rightarrow> Inl (AlphaIOError (LoadFailed (str_path p))))"

definition save_png ::
  "filesystem \<Rightarrow> image \<Rightarrow> path \<Rightarrow> bool \<Rightarrow> (error + unit) \<times> filesystem" where
  "save_png fs img p overwrite =
     (if path_exists fs p \<and> \<not> overwrite
      then (Inl (AlphaIOError (RefuseOverwrite (str_path p))), fs)
      else
        (case safe_mkdir fs (butlast p) of
           (Inl e, fs1) \<Rightarrow> (Inl e, fs1)
         | (Inr u, fs1) \<Rightarrow>
             if \<not> writable fs1 p \<or> is_dir fs1 p
             then (Inl (AlphaIOError (SaveFailed (str_path p))), fs1)
             else (Inr (), fs1\<lparr>is_file := (is_file fs1)(p := True),
                                decode := (decode fs1)(p := Some img)\<rparr>)))"

definition save_mask_png ::
  "filesystem \<Rightarrow> image \<Rightarrow> path \<Rightarrow> bool \<Rightarrow> (error + unit) \<times> filesystem" where
  "save_mask_png fs mask_img p overwrite =
     (case ensure_l mask_img of
        Inl e \<Rightarrow> (Inl e, fs)
      | Inr mask_l \<Rightarrow> save_png fs mask_l p overwrite)"

definition infer_output_path :: "path \<Rightarrow> path \<Rightarrow> string \<Rightarrow> string \<Rightarrow> path" where
  "infer_output_path in_path out_dir sfx ext =
     (let stem = path_stem in_path in joinpath out_dir (stem @ sfx @ ext))"

text \<open>
  \<^verbatim>\<open>expand_inputs(paths)\<close>: the first loop collects the images, the second keeps the
  first path of every resolved name.
\<close>

fun unique_stable :: "filesystem \<Rightarrow> string list \<Rightarrow> path list \<Rightarrow> path list" where
  "unique_stable fs seen [] = []"
| "unique_stable fs seen (p # ps) =
     (let key = resolve fs p in
      if key \<notin> set seen then p # unique_stable fs (key # seen) ps
      else unique_stable fs seen ps)"

definition expand_inputs :: "lowercase \<Rightarrow> filesystem \<Rightarrow> path list \<Rightarrow> path list" where
  "expand_inputs lower fs paths =
     (let out = concat (map (\<lambda>p. if is_dir fs p
                                   then filter (is_image_file lower fs) (sort (rglob fs p))
                                   else if is_image_file lower fs p then [p] else []) paths)
      in unique_stable fs [] out)"

section \<open>ops_split.py and ops_combine.py: the engines\<close>

text \<open>
  \<^verbatim>\<open>split_alpha(img, on_missing_alpha)\<close>. The unpacking
  \<^verbatim>\<open>r, g, b, a = rgba.split()\<close> raises \<^verbatim>\<open>ValueError\<close> unless there are four
  bands.
\<close>

definition split_alpha :: "image \<Rightarrow> string \<Rightarrow> error + (image \<times> image)" where
  "split_alpha img on_missing_alpha =
     (case ensure_rgba img of
        Inl e \<Rightarrow> Inl e
      | Inr rgba \<Rightarrow>
          if ''A'' \<notin> set (getbands rgba) then
            (if on_missing_alpha = ''error'' then Inl (AlphaIOError NoAlphaChannel)
             else (case ensure_rgb rgba of
                     Inl e \<Rightarrow> Inl e
                   | Inr rgb \<Rightarrow> Inr (rgb, new_L (size_of rgba) 255)))
          else
            (case split_bands rgba of
               [r, g, b, a] \<Rightarrow>
                 (case merge ''RGB'' [r, g, b] of
                    Inl e \<Rightarrow> Inl e
                  | Inr rgb \<Rightarrow> Inr (rgb, a))
             | _ \<Rightarrow> Inl ValueError))"

definition resample_to_pil :: "string \<Rightarrow> resampling" where
  "resample_to_pil resample = (if resample = ''bilinear'' then BILINEAR else NEAREST)"

definition combine_alpha ::
  "resizer \<Rightarrow> image \<Rightarrow> image \<Rightarrow> bool \<Rightarrow> string \<Rightarrow> string \<Rightarrow> error + image" where
  "combine_alpha resize rgb_img alpha_mask invert resize_mode resample =
     (case ensure_rgb rgb_img of
        Inl e \<Rightarrow> Inl e
      | Inr rgb \<Rightarrow>
     (case ensure_l alpha_mask of
        Inl e \<Rightarrow> Inl e
      | Inr mask_l \<Rightarrow>
     (case (if size_of mask_l \<noteq> size_of rgb then
              (if resize_mode = ''error''
               then Inl (AlphaIOError (SizeMismatch (size_of mask_l) (size_of rgb)))
               else Inr (resize mask_l (size_of rgb) (resample_to_pil resample)))
            else Inr mask_l) of
        Inl e \<Rightarrow> Inl e
      | Inr mask_r \<Rightarrow>
          (let mask_i = (if invert then eval_image mask_r (\<lambda>v. 255 - v) else mask_r)
           in case split_bands rgb of
                [r, g, b] \<Rightarrow> merge ''RGBA'' [r, g, b, mask_i]
              | _ \<Rightarrow> Inl ValueError))))"

section \<open>ops_split.py and ops_combine.py: files and batches\<close>

text \<open>
  The batch functions visit their work list in order. The cancellation flag is another
  thread's: \<open>cancel i\<close> says whether \<^verbatim>\<open>is_set()\<close> holds when it is read before item
  \<open>i\<close> (counted from 1, as \<^verbatim>\<open>enumerate(files, start=1)\<close> does). The progress
  callback only observes and is left out. \<^verbatim>\<open>except Exception\<close> catches every error
  of the item.
\<close>

definition split_alpha_file ::
  "filesystem \<Rightarrow> path \<Rightarrow> path \<Rightarrow> path \<Rightarrow> bool \<Rightarrow> string \<Rightarrow> (error + unit) \<times> filesystem" where
  "split_alpha_file fs in_path out_rgb_path out_alpha_path overwrite on_missing_alpha =
     (case load_image fs in_path of
        Inl e \<Rightarrow> (Inl e, fs)
      | Inr img \<Rightarrow>
          (case split_alpha img on_missing_alpha of
             Inl e \<Rightarrow> (Inl e, fs)
           | Inr (rgb, alpha) \<Rightarrow>
               (case save_png fs rgb out_rgb_path overwrite of
                  (Inl e, fs1) \<Rightarrow> (Inl e, fs1)
                | (Inr u, fs1) \<Rightarrow> save_mask_png fs1 alpha out_alpha_path overwrite)))"

fun split_loop ::
  "path \<Rightarrow> string \<Rightarrow> string \<Rightarrow> bool \<Rightarrow> string \<Rightarrow> bool \<Rightarrow> (nat \<Rightarrow> bool) \<Rightarrow>
   filesystem \<Rightarrow> nat \<Rightarrow> path list \<Rightarrow> path list \<Rightarrow> (error + path list) \<times> filesystem" where
  "split_loop out_dir rgb_sfx alpha_sfx overwrite on_missing_alpha continue_on_error cancel
     fs i [] outputs = (Inr outputs, fs)"
| "split_loop out_dir rgb_sfx alpha_sfx overwrite on_missing_alpha continue_on_error cancel
     fs i (p # ps) outputs =
     (if cancel i then (Inr outputs, fs)
      else
        (let out_rgb = infer_output_path p out_dir rgb_sfx ''.png'';
             out_a = infer_output_path p out_dir alpha_sfx ''.png''
         in case split_alpha_file fs p out_rgb out_a overwrite on_missing_alpha of
              (Inr u, fs1) \<Rightarrow>
                split_loop out_dir rgb_sfx alpha_sfx overwrite on_missing_alpha
                  continue_on_error cancel fs1 (i + 1) ps (outputs @ [out_rgb, out_a])
            | (Inl e, fs1) \<Rightarrow>
                if \<not> continue_on_error then (Inl e, fs1)
                else split_loop out_dir rgb_sfx alpha_sfx overwrite on_missing_alpha
                       continue_on_error cancel fs1 (i + 1) ps outputs))"

definition split_alpha_files ::
  "lowercase \<Rightarrow> filesystem \<Rightarrow> path list \<Rightarrow> path \<Rightarrow> string \<Rightarrow> string \<Rightarrow> bool \<Rightarrow> string \<Rightarrow> bool \<Rightarrow>
   (nat \<Rightarrow> bool) \<Rightarrow> (error + path list) \<times> filesystem" where
  "split_alpha_files lower fs in_paths out_dir rgb_sfx alpha_sfx overwrite on_missing_alpha
     continue_on_error cancel =
     (let files = expand_inputs lower fs in_paths in
      split_loop out_dir rgb_sfx alpha_sfx overwrite on_missing_alpha continue_on_error
        cancel fs 1 files [])"

definition combine_alpha_file ::
  "resizer \<Rightarrow> filesystem \<Rightarrow> path \<Rightarrow> path \<Rightarrow> path \<Rightarrow> bool \<Rightarrow> string \<Rightarrow> string \<Rightarrow> bool \<Rightarrow>
   (error + unit) \<times> filesystem" where
  "combine_alpha_file resize fs rgb_path alpha_path out_path invert resize_mode resample
     overwrite =
     (case load_image fs rgb_path of
        Inl e \<Rightarrow> (Inl e, fs)
      | Inr rgb \<Rightarrow>
          (case load_image fs alpha_path of
             Inl e \<Rightarrow> (Inl e, fs)
           | Inr a \<Rightarrow>
               (case combine_alpha resize rgb a invert resize_mode resample of
                  Inl e \<Rightarrow> (Inl e, fs)
                | Inr out \<Rightarrow> save_png fs out out_path overwrite)))"

fun combine_loop ::
  "resizer \<Rightarrow> path \<Rightarrow> string \<Rightarrow> bool \<Rightarrow> string \<Rightarrow> string \<Rightarrow> bool \<Rightarrow> bool \<Rightarrow> (nat \<Rightarrow> bool) \<Rightarrow>
   filesystem \<Rightarrow> nat \<Rightarrow> (path \<times> path) list \<Rightarrow> path list \<Rightarrow> (error + path list) \<times> filesystem" where
  "combine_loop resize out_dir out_sfx invert resize_mode resample overwrite
     continue_on_error cancel fs i [] outputs = (Inr outputs, fs)"
| "combine_loop resize out_dir out_sfx invert resize_mode resample overwrite
     continue_on_error cancel fs i ((rgb_p, a_p) # ps) outputs =
     (if cancel i then (Inr outputs, fs)
      else
        (let out_path = infer_output_path rgb_p out_dir out_sfx ''.png''
         in case combine_alpha_file resize fs rgb_p a_p out_path invert resize_mode resample
                   overwrite of
              (Inr u, fs1) \<Rightarrow>
                combine_loop resize out_dir out_sfx invert resize_mode resample overwrite
                  continue_on_error cancel fs1 (i + 1) ps (outputs @ [out_path])
            | (Inl e, fs1) \<Rightarrow>
                if \<not> continue_on_error then (Inl e, fs1)
                else combine_loop resize out_dir out_sfx invert resize_mode resample
                       overwrite continue_on_error cancel fs1 (i + 1) ps outputs))"

definition combine_alpha_files ::
  "resizer \<Rightarrow> filesystem \<Rightarrow> (path \<times> path) list \<Rightarrow> path \<Rightarrow> string \<Rightarrow> bool \<Rightarrow> string \<Rightarrow>
   string \<Rightarrow> bool \<Rightarrow> bool \<Rightarrow> (nat \<Rightarrow> bool) \<Rightarrow> (error + path list) \<times> filesystem" where
  "combine_alpha_files resize fs pairs out_dir out_sfx invert resize_mode resample overwrite
     continue_on_error cancel =
     combine_loop resize out_dir out_sfx invert resize_mode resample overwrite
       continue_on_error cancel fs 1 pairs []"

section \<open>The array library, as far as alpha_core uses it\<close>

text \<open>
  An array holds the samples of an image in row order; its shape is (rows, columns),
  that is (height, width), and its size is the number of its elements.
  \<^verbatim>\<open>np.asarray(img, dtype=np.uint8)\<close> of an \<^verbatim>\<open>L\<close> image has one byte per
  pixel; \<^verbatim>\<open>np.asarray(img, dtype=np.int16)\<close> of an \<^verbatim>\<open>RGB\<close> image has three
  signed 16-bit values per pixel (the third axis). The code calls them on images of
  these modes only.
\<close>

type_synonym int16 = "16 word"

record 'a ndarray =
  shape :: "nat \<times> nat"
  elems :: "'a list"

fun asarray_uint8 :: "image \<Rightarrow> byte ndarray" where
  "asarray_uint8 (ImL (w, h) tr px) = \<lparr>shape = (h, w), elems = px\<rparr>"

fun asarray_int16 :: "image \<Rightarrow> (int16 \<times> int16 \<times> int16) ndarray" where
  "asarray_int16 (ImRGB (w, h) tr px) =
     \<lparr>shape = (h, w), elems = map (\<lambda>(r, g, b). (ucast r, ucast g, ucast b)) px\<rparr>"

text \<open>\<^verbatim>\<open>Image.fromarray(a, mode="L")\<close>.\<close>

definition fromarray_L :: "byte ndarray \<Rightarrow> image" where
  "fromarray_L a = ImL (snd (shape a), fst (shape a)) None (elems a)"

text \<open>\<^verbatim>\<open>np.where(cond, x, y)\<close>, element by element.\<close>

definition np_where :: "('a \<Rightarrow> bool) \<Rightarrow> 'b \<Rightarrow> 'b \<Rightarrow> 'a ndarray \<Rightarrow> 'b ndarray" where
  "np_where cond x y a = \<lparr>shape = shape a, elems = map (\<lambda>v. if cond v then x else y) (elems a)\<rparr>"

text \<open>
  \<^verbatim>\<open>np.array(key_rgb, dtype=np.int16)\<close>: a Python integer that does not fit 16 signed
  bits is refused with \<^verbatim>\<open>OverflowError\<close> (NumPy 2).
\<close>

definition np_int16 :: "int \<Rightarrow> error + int16" where
  "np_int16 k = (if - 32768 \<le> k \<and> k \<le> 32767 then Inr (word_of_int k) else Inl OverflowError)"

text \<open>
  Arithmetic on \<^verbatim>\<open>int16\<close> arrays wraps around: subtraction is the word's,
  \<^verbatim>\<open>np.abs\<close> negates a negative value (so the least value is its own absolute
  value), and \<^verbatim>\<open>max\<close> and the comparison read the values as signed.
\<close>

definition abs16 :: "int16 \<Rightarrow> int16" where
  "abs16 x = (if sint x < 0 then - x else x)"

definition max16 :: "int16 \<Rightarrow> int16 \<Rightarrow> int16" where
  "max16 x y = (if sint x < sint y then y else x)"

section \<open>ops_generate.py: masks from colour\<close>

definition generate_alpha_luminance :: "image \<Rightarrow> error + image" where
  "generate_alpha_luminance img =
     (case ensure_rgb img of
        Inl e \<Rightarrow> Inl e
      | Inr rgb \<Rightarrow> convert_L rgb)"

definition generate_alpha_threshold :: "image \<Rightarrow> int \<Rightarrow> error + image" where
  "generate_alpha_threshold img threshold =
     (if \<not> (0 \<le> threshold \<and> threshold \<le> 255) then Inl (AlphaIOError ThresholdRange)
      else
        (case generate_alpha_luminance img of
           Inl e \<Rightarrow> Inl e
         | Inr lum \<Rightarrow>
             (let arr = asarray_uint8 lum;
                  out = np_where (\<lambda>v. uint v \<ge> threshold) (255 :: byte) 0 arr
              in Inr (fromarray_L out))))"

definition generate_alpha_colorkey :: "image \<Rightarrow> int \<times> int \<times> int \<Rightarrow> int \<Rightarrow> error + image" where
  "generate_alpha_colorkey img key_rgb tolerance =
     (if \<not> (0 \<le> tolerance \<and> tolerance \<le> 255) then Inl (AlphaIOError ToleranceRange)
      else
        (case ensure_rgb img of
           Inl e \<Rightarrow> Inl e
         | Inr rgb \<Rightarrow>
        (let arr = asarray_int16 rgb
         in case key_rgb of (kr, kg, kb) \<Rightarrow>
           (case np_int16 kr of Inl e \<Rightarrow> Inl e | Inr key_r \<Rightarrow>
           (case np_int16 kg of Inl e \<Rightarrow> Inl e | Inr key_g \<Rightarrow>
           (case np_int16 kb of Inl e \<Rightarrow> Inl e | Inr key_b \<Rightarrow>
              (let diff = \<lparr>shape = shape arr,
                          elems = map (\<lambda>(r, g, b). (abs16 (r - key_r), abs16 (g - key_g),
                                                      abs16 (b - key_b))) (elems arr)\<rparr>;
                   dist = \<lparr>shape = shape diff,
                          elems = map (\<lambda>(r, g, b). max16 (max16 r g) b) (elems diff)\<rparr>;
                   out = np_where (\<lambda>v. sint v \<le> tolerance) (0 :: byte) 255 dist
               in Inr (fromarray_L out))))))))"

definition maybe_invert :: "image \<Rightarrow> bool \<Rightarrow> error + image" where
  "maybe_invert mask_img invert =
     (case ensure_l mask_img of
        Inl e \<Rightarrow> Inl e
      | Inr m \<Rightarrow> if \<not> invert then Inr m else Inr (eval_image m (\<lambda>v. 255 - v)))"

record GenerateOptions =
  kind :: string
  threshold :: int
  key_color :: "int \<times> int \<times> int"
  tolerance :: int
  invert :: bool

definition generate_alpha_file ::
  "filesystem \<Rightarrow> path \<Rightarrow> path \<Rightarrow> GenerateOptions \<Rightarrow> bool \<Rightarrow> (error + path) \<times> filesystem" where
  "generate_alpha_file fs in_path out_mask_path opts overwrite =
     (case load_image fs in_path of
        Inl e \<Rightarrow> (Inl e, fs)
      | Inr img \<Rightarrow>
          (case (if kind opts = ''luminance'' then generate_alpha_luminance img
                 else if kind opts = ''threshold''
                 then generate_alpha_threshold img (threshold opts)
                 else if kind opts = ''colorkey''
                 then generate_alpha_colorkey img (key_color opts) (tolerance opts)
                 else Inl (AlphaIOError (UnknownKind (kind opts)))) of
             Inl e \<Rightarrow> (Inl e, fs)
           | Inr m \<Rightarrow>
               (case maybe_invert m (invert opts) of
                  Inl e \<Rightarrow> (Inl e, fs)
                | Inr m1 \<Rightarrow>
                    (case save_mask_png fs m1 out_mask_path overwrite of
                       (Inl e, fs1) \<Rightarrow> (Inl e, fs1)
                     | (Inr u, fs1) \<Rightarrow> (Inr out_mask_path, fs1)))))"

fun generate_loop ::
  "path \<Rightarrow> GenerateOptions \<Rightarrow> string \<Rightarrow> bool \<Rightarrow> bool \<Rightarrow> (nat \<Rightarrow> bool) \<Rightarrow>
   filesystem \<Rightarrow> nat \<Rightarrow> path list \<Rightarrow> path list \<Rightarrow> (error + path list) \<times> filesystem" where
  "generate_loop out_dir opts out_sfx overwrite continue_on_error cancel fs i [] outputs =
     (Inr outputs, fs)"
| "generate_loop out_dir opts out_sfx overwrite continue_on_error cancel fs i (p # ps) outputs =
     (if cancel i then (Inr outputs, fs)
      else
        (let out_mask = infer_output_path p out_dir out_sfx ''.png''
         in case generate_alpha_file fs p out_mask opts overwrite of
              (Inr r, fs1) \<Rightarrow>
                generate_loop out_dir opts out_sfx overwrite continue_on_error cancel fs1
                  (i + 1) ps (outputs @ [r])
            | (Inl e, fs1) \<Rightarrow>
                if \<not> continue_on_error then (Inl e, fs1)
                else generate_loop out_dir opts out_sfx overwrite continue_on_error cancel
                       fs1 (i + 1) ps outputs))"

definition generate_alpha_files ::
  "lowercase \<Rightarrow> filesystem \<Rightarrow> path list \<Rightarrow> path \<Rightarrow> GenerateOptions \<Rightarrow> string \<Rightarrow> bool \<Rightarrow> bool \<Rightarrow>
   (nat \<Rightarrow> bool) \<Rightarrow> (error + path list) \<times> filesystem" where
  "generate_alpha_files lower fs in_paths out_dir opts out_sfx overwrite continue_on_error
     cancel =
     (let files = expand_inputs lower fs in_paths in
      generate_loop out_dir opts out_sfx overwrite continue_on_error cancel fs 1 files [])"

section \<open>Floating point, as far as alpha_core uses it\<close>

text \<open>
  A Python float and a NumPy \<^verbatim>\<open>float64\<close> are binary64 numbers: 53 significant
  bits, every operation rounded to the nearest float, ties to the even one. A float is
  modelled by the real number it stands for, and \<open>float64 x\<close> is the float nearest
  to the real number \<open>x\<close>: the float quotient of \<open>a\<close> and \<open>b\<close> is
  \<open>float64 (a / b)\<close>, and the conversion of an integer \<open>n\<close> is \<open>float64 n\<close>.
  \<open>round_even\<close> rounds to the nearest integer, ties to even; \<open>ulp_exp x\<close> is the
  exponent of the unit in the last place of \<open>x\<close>. Infinities, subnormal numbers and
  NaN are left out: the numbers computed from an alpha array are zero or of a
  magnitude far inside the range of the normal binary64 numbers.

  \<open>fsum\<close> is the sum of an array of floats, each addition rounded. It adds from left
  to right; NumPy adds in blocks and pairs, which is the same number whenever no
  addition rounds.
\<close>

definition round_even :: "real \<Rightarrow> int" where
  "round_even y =
     (let f = \<lfloor>y\<rfloor> in
      if y - of_int f < 1 / 2 then f
      else if 1 / 2 < y - of_int f then f + 1
      else if even f then f else f + 1)"

definition ulp_exp :: "real \<Rightarrow> int" where
  "ulp_exp x = \<lfloor>log 2 \<bar>x\<bar>\<rfloor> - 52"

definition float64 :: "real \<Rightarrow> real" where
  "float64 x =
     (if x = 0 then 0
      else of_int (round_even (x / 2 powr of_int (ulp_exp x))) * 2 powr of_int (ulp_exp x))"

definition fsum :: "real list \<Rightarrow> real" where
  "fsum xs = foldl (\<lambda>a x. float64 (a + x)) 0 xs"

section \<open>ops_validate.py: alpha statistics and rules\<close>

text \<open>
  The statistics \<^verbatim>\<open>mean\<close>, \<^verbatim>\<open>std\<close> and the three percentages are floats,
  and so are the thresholds of the rules; the comparisons of the rules compare the
  numbers the floats stand for.
\<close>

record AlphaStats =
  width :: nat
  height :: nat
  min_a :: int
  max_a :: int
  mean :: real
  std :: real
  pct_zero :: real
  pct_255 :: real
  pct_mid :: real

record ValidationRules =
  warn_pct_255 :: real
  warn_pct_zero :: real
  warn_std_lt :: real
  warn_range_le :: int
  fail_no_alpha :: bool

definition default_rules :: ValidationRules where
  "default_rules =
     \<lparr>warn_pct_255 = float64 99.9, warn_pct_zero = float64 99.9, warn_std_lt = 1.0,
      warn_range_le = 2, fail_no_alpha = False\<rparr>"

datatype status = PASS | WARN | FAIL

text \<open>
  The messages of a result, each constructor standing for one message text of the
  source, with the numbers the text prints:
  \<^item> \<open>NoAlpha\<close>: "No alpha channel."
  \<^item> \<open>AllOpaque p\<close>: "Alpha is ~all opaque (p% == 255)."
  \<^item> \<open>AllTransparent p\<close>: "Alpha is ~all transparent (p% == 0)."
  \<^item> \<open>NearConstant s r\<close>: "Alpha is near-constant (std=s, range=r)."
  \<^item> \<open>ProcessingError e\<close>: "Error reading/processing file: e"
\<close>

datatype message =
    NoAlpha
  | AllOpaque real
  | AllTransparent real
  | NearConstant real int
  | ProcessingError error

record AlphaValidationResult =
  path :: string
  has_alpha :: bool
  status :: status
  messages :: "message list"
  stats :: "AlphaStats option"

text \<open>
  \<^verbatim>\<open>_alpha_array(img)\<close>. \<^verbatim>\<open>rgba.split()[3]\<close> raises \<^verbatim>\<open>IndexError\<close> when there
  are fewer than four bands; it is one of the errors the batch catches.
\<close>

definition alpha_array :: "image \<Rightarrow> error + byte ndarray option" where
  "alpha_array img =
     (case ensure_rgba img of
        Inl e \<Rightarrow> Inl e
      | Inr rgba \<Rightarrow>
          (let bands = getbands rgba
           in if ''A'' \<notin> set bands then Inr None
              else if 3 < length (split_bands rgba)
              then Inr (Some (asarray_uint8 (split_bands rgba ! 3)))
              else Inl IndexError))"

text \<open>
  \<^verbatim>\<open>compute_alpha_stats(alpha_arr)\<close>. The reductions \<^verbatim>\<open>min\<close> and \<^verbatim>\<open>max\<close> of
  an array with no element raise \<^verbatim>\<open>ValueError\<close>. \<^verbatim>\<open>mean\<close> adds the samples as
  floats and divides the sum by the size. \<^verbatim>\<open>std\<close> is the population standard
  deviation as NumPy computes it: the deviations from the mean, their squares, the sum
  of the squares over the size, and the square root, each step rounded. A percentage
  is a count times \<^verbatim>\<open>100.0\<close> over the size.
\<close>

definition count_where :: "('a \<Rightarrow> bool) \<Rightarrow> 'a ndarray \<Rightarrow> nat" where
  "count_where cond a = length (filter cond (elems a))"

definition arr_size :: "'a ndarray \<Rightarrow> nat" where
  "arr_size a = length (elems a)"

definition arr_mean :: "byte ndarray \<Rightarrow> real" where
  "arr_mean a = float64 (fsum (map (\<lambda>v. real (unat v)) (elems a)) / float64 (real (arr_size a)))"

definition arr_std :: "byte ndarray \<Rightarrow> real" where
  "arr_std a =
     (let arrmean = arr_mean a;
          x = map (\<lambda>v. float64 (real (unat v) - arrmean)) (elems a);
          sq = map (\<lambda>d. float64 (d * d)) x
      in float64 (sqrt (float64 (fsum sq / float64 (real (arr_size a))))))"

definition compute_alpha_stats :: "byte ndarray \<Rightarrow> error + AlphaStats" where
  "compute_alpha_stats alpha_arr =
     (if elems alpha_arr = [] then Inl ValueError
      else
        (let (h, w) = shape alpha_arr;
             mn = Min (set (map uint (elems alpha_arr)));
             mx = Max (set (map uint (elems alpha_arr)));
             total = arr_size alpha_arr
         in Inr \<lparr>width = w, height = h, min_a = mn, max_a = mx,
                  mean = arr_mean alpha_arr, std = arr_std alpha_arr,
                  pct_zero =
                    float64 (float64 (float64 (real (count_where (\<lambda>v. v = 0) alpha_arr)) * 100)
                             / float64 (real total)),
                  pct_255 =
                    float64 (float64 (float64 (real (count_where (\<lambda>v. v = 255) alpha_arr)) * 100)
                             / float64 (real total)),
                  pct_mid =
                    float64 (float64 (float64
                               (real (count_where (\<lambda>v. 0 < v \<and> v < 255) alpha_arr)) * 100)
                             / float64 (real total))\<rparr>))"

definition validate_alpha_file ::
  "filesystem \<Rightarrow> path \<Rightarrow> ValidationRules \<Rightarrow> error + AlphaValidationResult" where
  "validate_alpha_file fs p rules =
     (case load_image fs p of
        Inl e \<Rightarrow> Inl e
      | Inr img \<Rightarrow>
          (case alpha_array img of
             Inl e \<Rightarrow> Inl e
           | Inr None \<Rightarrow>
               Inr \<lparr>path = str_path p, has_alpha = False,
                    status = (if fail_no_alpha rules then FAIL else WARN),
                    messages = [NoAlpha], stats = None\<rparr>
           | Inr (Some alpha_arr) \<Rightarrow>
               (case compute_alpha_stats alpha_arr of
                  Inl e \<Rightarrow> Inl e
                | Inr st \<Rightarrow>
                    (let messages0 = [];
                         status0 = PASS;
                         (messages1, status1) =
                           (if pct_255 st \<ge> warn_pct_255 rules
                            then (messages0 @ [AllOpaque (pct_255 st)], WARN)
                            else (messages0, status0));
                         (messages2, status2) =
                           (if pct_zero st \<ge> warn_pct_zero rules
                            then (messages1 @ [AllTransparent (pct_zero st)], WARN)
                            else (messages1, status1));
                         (messages3, status3) =
                           (if std st < warn_std_lt rules
                               \<and> max_a st - min_a st \<le> warn_range_le rules
                            then (messages2 @ [NearConstant (std st) (max_a st - min_a st)],
                                  WARN)
                            else (messages2, status2))
                     in Inr \<lparr>path = str_path p, has_alpha = True, status = status3,
                             messages = messages3, stats = Some st\<rparr>))))"

fun validate_loop ::
  "ValidationRules \<Rightarrow> bool \<Rightarrow> (nat \<Rightarrow> bool) \<Rightarrow> filesystem \<Rightarrow> nat \<Rightarrow> path list \<Rightarrow>
   AlphaValidationResult list \<Rightarrow> error + AlphaValidationResult list" where
  "validate_loop rules continue_on_error cancel fs i [] results = Inr results"
| "validate_loop rules continue_on_error cancel fs i (p # ps) results =
     (if cancel i then Inr results
      else
        (case validate_alpha_file fs p rules of
           Inr res \<Rightarrow>
             validate_loop rules continue_on_error cancel fs (i + 1) ps (results @ [res])
         | Inl e \<Rightarrow>
             if \<not> continue_on_error then Inl e
             else validate_loop rules continue_on_error cancel fs (i + 1) ps
                    (results @ [\<lparr>path = str_path p, has_alpha = False, status = FAIL,
                                  messages = [ProcessingError e], stats = None\<rparr>])))"

definition validate_alpha_files ::
  "filesystem \<Rightarrow> path list \<Rightarrow> ValidationRules \<Rightarrow> bool \<Rightarrow> (nat \<Rightarrow> bool) \<Rightarrow>
   error + AlphaValidationResult list" where
  "validate_alpha_files fs paths rules continue_on_error cancel =
     (let files = paths in validate_loop rules continue_on_error cancel fs 1 files [])"

section \<open>naming.py: pairing RGB files with alpha files\<close>

record PairingRule =
  mode :: string
  alpha_suffix :: string
  rgb_suffix :: string
  rgb_dir_name :: string
  alpha_dir_name :: string
  case_sensitive :: bool

definition default_rule :: PairingRule where
  "default_rule =
     \<lparr>mode = ''suffix'', alpha_suffix = ''_alpha'', rgb_suffix = [], rgb_dir_name = ''rgb'',
      alpha_dir_name = ''alpha'', case_sensitive = False\<rparr>"

definition norm_case :: "lowercase \<Rightarrow> string \<Rightarrow> bool \<Rightarrow> string" where
  "norm_case lower s cs = (if cs then s else lower s)"

definition list_images :: "lowercase \<Rightarrow> filesystem \<Rightarrow> path list \<Rightarrow> path list" where
  "list_images lower fs paths = expand_inputs lower fs paths"

text \<open>\<^verbatim>\<open>parts.index(x)\<close>: the first index of \<open>x\<close>, \<^verbatim>\<open>ValueError\<close> without one.\<close>

definition index_of :: "'a list \<Rightarrow> 'a \<Rightarrow> error + nat" where
  "index_of xs x =
     (if x \<in> set xs then Inr (length (takeWhile (\<lambda>y. y \<noteq> x) xs)) else Inl ValueError)"

text \<open>
  \<^verbatim>\<open>_key_for_path(p, rule, is_alpha)\<close>. In folder mode the \<^verbatim>\<open>try\<close> block catches
  the \<^verbatim>\<open>ValueError\<close> of \<^verbatim>\<open>index\<close> and of \<^verbatim>\<open>with_suffix\<close> alike; the
  \<^verbatim>\<open>with_suffix\<close> of the handler is not caught.
\<close>

definition key_for_path :: "lowercase \<Rightarrow> path \<Rightarrow> PairingRule \<Rightarrow> bool \<Rightarrow> error + string" where
  "key_for_path lower p rule is_alpha =
     (let stem = path_stem p in
      if mode rule = ''suffix'' then
        (let s0 = stem;
             s1 = (if is_alpha \<and> alpha_suffix rule \<noteq> [] \<and> suffix (alpha_suffix rule) s0
                   then take (length s0 - length (alpha_suffix rule)) s0 else s0);
             s2 = (if \<not> is_alpha \<and> rgb_suffix rule \<noteq> [] \<and> suffix (rgb_suffix rule) s1
                   then take (length s1 - length (rgb_suffix rule)) s1 else s1)
         in Inr (norm_case lower s2 (case_sensitive rule)))
      else if mode rule = ''folder'' then
        (let parts = p;
             dir_name = (if is_alpha then alpha_dir_name rule else rgb_dir_name rule)
         in case (case index_of parts dir_name of
                    Inl e \<Rightarrow> Inl e
                  | Inr idx \<Rightarrow>
                      (case with_suffix_empty (drop (idx + 1) parts) of
                         Inl e \<Rightarrow> Inl e
                       | Inr rel \<Rightarrow> Inr (str_path rel))) of
              Inr rel \<Rightarrow> Inr (norm_case lower rel (case_sensitive rule))
            | Inl e \<Rightarrow>
                (case with_suffix_empty p of
                   Inl e' \<Rightarrow> Inl e'
                 | Inr q \<Rightarrow> Inr (norm_case lower (path_name q) (case_sensitive rule))))
      else Inr (norm_case lower stem (case_sensitive rule)))"

text \<open>
  A Python dictionary keeps its keys in the order they were first stored; it is a list
  of pairs with one pair per key. \<^verbatim>\<open>d.setdefault(k, v)\<close> stores \<open>v\<close> only when \<open>k\<close>
  has no value yet.
\<close>

definition setdefault :: "('k \<times> 'v) list \<Rightarrow> 'k \<Rightarrow> 'v \<Rightarrow> ('k \<times> 'v) list" where
  "setdefault d k v = (if k \<in> fst ` set d then d else d @ [(k, v)])"

fun build_map ::
  "lowercase \<Rightarrow> filesystem \<Rightarrow> PairingRule \<Rightarrow> bool \<Rightarrow> path list \<Rightarrow> (string \<times> path) list \<Rightarrow>
   error + (string \<times> path) list" where
  "build_map lower fs rule is_alpha [] d = Inr d"
| "build_map lower fs rule is_alpha (p # ps) d =
     (if is_image_file lower fs p then
        (case key_for_path lower p rule is_alpha of
           Inl e \<Rightarrow> Inl e
         | Inr k \<Rightarrow> build_map lower fs rule is_alpha ps (setdefault d k p))
      else build_map lower fs rule is_alpha ps d)"

definition build_pairs ::
  "lowercase \<Rightarrow> filesystem \<Rightarrow> path list \<Rightarrow> path list \<Rightarrow> PairingRule \<Rightarrow>
   error + ((path \<times> path) list \<times> path list \<times> path list)" where
  "build_pairs lower fs rgb_paths alpha_paths rule =
     (case build_map lower fs rule False rgb_paths [] of
        Inl e \<Rightarrow> Inl e
      | Inr rgb_map \<Rightarrow>
          (case build_map lower fs rule True alpha_paths [] of
             Inl e \<Rightarrow> Inl e
           | Inr alpha_map \<Rightarrow>
               (let pairs = concat (map (\<lambda>(k, rgb_p).
                              case map_of alpha_map k of
                                Some a \<Rightarrow> [(rgb_p, a)]
                              | None \<Rightarrow> []) rgb_map);
                    used_alpha = concat (map (\<lambda>(k, rgb_p).
                              case map_of alpha_map k of
                                Some a \<Rightarrow> [k]
                              | None \<Rightarrow> []) rgb_map);
                    unpaired_rgb = map snd (filter (\<lambda>(k, p). k \<notin> set used_alpha
                                     \<and> k \<notin> fst ` set alpha_map) rgb_map);
                    unpaired_alpha = map snd (filter (\<lambda>(k, p). k \<notin> set used_alpha) alpha_map)
                in Inr (sort_key (\<lambda>t. str_path (fst t)) pairs,
                        sort_key str_path unpaired_rgb,
                        sort_key str_path unpaired_alpha))))"

section \<open>Properties of the split and combine engines\<close>

text \<open>The modes that the library converts to \<^verbatim>\<open>RGBA\<close>, \<^verbatim>\<open>RGB\<close> and \<^verbatim>\<open>L\<close>.\<close>

definition has_converter :: "image \<Rightarrow> bool" where
  "has_converter img \<longleftrightarrow> mode_of img \<in> {''L'', ''P'', ''RGB'', ''RGBA''}"

lemma zip3_planes: "zip3 (map (\<lambda>(r, g, b, a). r) px) (map (\<lambda>(r, g, b, a). g) px)
    (map (\<lambda>(r, g, b, a). b) px) = map drop_alpha px"
  by (induction px) (auto simp: drop_alpha_def)

lemma zip4_planes: "zip4 (map ((\<lambda>(r, g, b). r) \<circ> drop_alpha) px)
    (map ((\<lambda>(r, g, b). g) \<circ> drop_alpha) px) (map ((\<lambda>(r, g, b). b) \<circ> drop_alpha) px)
    (map (\<lambda>(r, g, b, a). a) px) = px"
  by (induction px) (auto simp: drop_alpha_def)

lemma zip4_rgb_mask_map:
  "zip4 (map (\<lambda>(r, g, b). r) cs) (map (\<lambda>(r, g, b). g) cs) (map (\<lambda>(r, g, b). b) cs) (map f ms)
     = map (\<lambda>((r, g, b), m). (r, g, b, f m)) (zip cs ms)"
proof (induction cs arbitrary: ms)
  case Nil
  then show ?case by simp
next
  case (Cons c cs)
  then show ?case by (cases ms) (auto simp: split_def)
qed

lemma zip4_rgb_mask:
  "zip4 (map (\<lambda>(r, g, b). r) cs) (map (\<lambda>(r, g, b). g) cs) (map (\<lambda>(r, g, b). b) cs) ms
     = map (\<lambda>((r, g, b), m). (r, g, b, m)) (zip cs ms)"
  using zip4_rgb_mask_map [of cs "\<lambda>m. m" ms] by simp

lemma split_alpha_RGBA:
  "split_alpha (ImRGBA d px) oma =
     Inr (ImRGB d None (map drop_alpha px), ImL d None (map (\<lambda>(r, g, b, a). a) px))"
  by (simp add: split_alpha_def ensure_rgba_def zip3_planes)

lemma ensure_rgba_bands:
  "ensure_rgba img = Inr rgba \<Longrightarrow> getbands rgba = [''R'', ''G'', ''B'', ''A'']"
  by (cases img) (auto simp: ensure_rgba_def)






lemma combine_alpha_planes:
  "combine_alpha resize (ImRGB d tr cs) (ImL d tm ms) iv resize_mode resample =
     Inr (ImRGBA d (map (\<lambda>((r, g, b), m). (r, g, b, if iv then 255 - m else m)) (zip cs ms)))"
proof (cases iv)
  case True
  then show ?thesis
    by (simp add: combine_alpha_def ensure_rgb_def ensure_l_def zip4_rgb_mask_map)
next
  case False
  then show ?thesis
    by (simp add: combine_alpha_def ensure_rgb_def ensure_l_def zip4_rgb_mask)
qed

text \<open>
  C4. For an image with four bands, \<open>split_alpha\<close> returns an RGB image and a mask of
  the image's size, and \<open>combine_alpha\<close> of the two, without inversion, returns the
  image itself: the same size and the same four samples at every pixel. No resize
  happens, whatever the resizer, the resize mode and the filter.
\<close>

theorem combine_split_roundtrip:
  "\<exists>rgb a. split_alpha (ImRGBA d px) on_missing_alpha = Inr (rgb, a)
     \<and> size_of rgb = d \<and> size_of a = d
     \<and> combine_alpha resize rgb a False resize_mode resample = Inr (ImRGBA d px)"
proof -
  have "map (\<lambda>((r, g, b), m). (r, g, b, m)) (zip (map drop_alpha px) (map (\<lambda>(r, g, b, a). a) px))
      = px"
    by (induction px) (auto simp: drop_alpha_def)
  then show ?thesis
    by (simp add: split_alpha_RGBA combine_alpha_planes)
qed


lemma ensure_l_RGBA: "ensure_l (ImRGBA d px) = Inr (ImL d None (map (luma \<circ> drop_alpha) px))"
  by (simp add: ensure_l_def)

lemma ensure_l_RGB: "ensure_l (ImRGB d tm qx) = Inr (ImL d (map_option luma tm) (map luma qx))"
  by (simp add: ensure_l_def)

lemma ensure_l_L: "ensure_l (ImL d tm ms) = Inr (ImL d tm ms)"
  by (simp add: ensure_l_def)

lemma combine_alpha_mask_cong:
  "ensure_l m1 = ensure_l m2 \<Longrightarrow>
   combine_alpha resize rgb_img m1 iv resize_mode resample =
   combine_alpha resize rgb_img m2 iv resize_mode resample"
  by (cases "ensure_rgb rgb_img") (simp_all add: combine_alpha_def)

text \<open>
  C10. A mask given to \<open>combine_alpha\<close> as an RGBA or RGB image is replaced by the luma
  of its colour channels. With an RGB image of the same size, the fourth channel of the
  result is, pixel by pixel, the luma of the mask's colour (255 minus it when
  \<open>invert\<close> is set), and the first three are the RGB image's. The alpha samples of an
  RGBA mask occur nowhere in the result. In general, sizes differing too, the result is
  the result for the grey image of these lumas.
\<close>

theorem combine_alpha_colour_mask:
  "combine_alpha resize (ImRGB d tr cs) (ImRGBA d px) iv resize_mode resample =
     Inr (ImRGBA d (map (\<lambda>((r, g, b), p).
            (r, g, b, if iv then 255 - luma (drop_alpha p) else luma (drop_alpha p)))
          (zip cs px)))
   \<and> combine_alpha resize (ImRGB d tr cs) (ImRGB d tm qx) iv resize_mode resample =
     Inr (ImRGBA d (map (\<lambda>((r, g, b), q). (r, g, b, if iv then 255 - luma q else luma q))
          (zip cs qx)))
   \<and> combine_alpha resize rgb_img (ImRGBA d' px) iv resize_mode resample =
     combine_alpha resize rgb_img (ImL d' None (map (luma \<circ> drop_alpha) px)) iv resize_mode
       resample
   \<and> combine_alpha resize rgb_img (ImRGB d' tm qx) iv resize_mode resample =
     combine_alpha resize rgb_img (ImL d' (map_option luma tm) (map luma qx)) iv resize_mode
       resample"
proof -
  have 1: "combine_alpha resize rgb_img (ImRGBA d' px) iv resize_mode resample =
     combine_alpha resize rgb_img (ImL d' None (map (luma \<circ> drop_alpha) px)) iv resize_mode
       resample" for d' rgb_img
    by (rule combine_alpha_mask_cong) (simp only: ensure_l_RGBA ensure_l_L)
  have 2: "combine_alpha resize rgb_img (ImRGB d' tm qx) iv resize_mode resample =
     combine_alpha resize rgb_img (ImL d' (map_option luma tm) (map luma qx)) iv resize_mode
       resample" for d' rgb_img
    by (rule combine_alpha_mask_cong) (simp only: ensure_l_RGB ensure_l_L)
  have 3: "map (\<lambda>((r, g, b), m). (r, g, b, if iv then 255 - m else m))
             (zip cs (map (luma \<circ> drop_alpha) px))
         = map (\<lambda>((r, g, b), p).
            (r, g, b, if iv then 255 - luma (drop_alpha p) else luma (drop_alpha p)))
          (zip cs px)"
    by (simp add: zip_map2 split_def)
  have 4: "map (\<lambda>((r, g, b), m). (r, g, b, if iv then 255 - m else m)) (zip cs (map luma qx))
         = map (\<lambda>((r, g, b), q). (r, g, b, if iv then 255 - luma q else luma q)) (zip cs qx)"
    by (simp add: zip_map2 split_def)
  show ?thesis
    unfolding 1 [of "ImRGB d tr cs" d] 2 [of "ImRGB d tr cs" d] combine_alpha_planes 3 4
    using 1 2 by simp
qed

theorem combine_alpha_colour_mask_witness:
  "combine_alpha (\<lambda>m d f. m) (ImRGB (2, 1) None [(9, 8, 7), (1, 2, 3)])
       (ImRGBA (2, 1) [(255, 0, 0, 7), (0, 255, 0, 200)]) False ''error'' ''nearest'' =
     Inr (ImRGBA (2, 1) [(9, 8, 7, 76), (1, 2, 3, 150)])
   \<and> combine_alpha (\<lambda>m d f. m) (ImRGB (2, 1) None [(9, 8, 7), (1, 2, 3)])
       (ImRGB (2, 1) None [(255, 0, 0), (0, 0, 255)]) True ''error'' ''nearest'' =
     Inr (ImRGBA (2, 1) [(9, 8, 7, 179), (1, 2, 3, 226)])"
proof -
  have l: "luma (255, 0, 0) = 76" "luma (0, 255, 0) = 150" "luma (0, 0, 255) = 29"
    by (simp_all add: luma_def)
  have a: "combine_alpha (\<lambda>m d f. m) (ImRGB (2, 1) None [(9, 8, 7), (1, 2, 3)])
       (ImRGBA (2, 1) [(255, 0, 0, 7), (0, 255, 0, 200)]) False ''error'' ''nearest'' =
     Inr (ImRGBA (2, 1) (map (\<lambda>((r, g, b), p).
            (r, g, b, if False then 255 - luma (drop_alpha p) else luma (drop_alpha p)))
          (zip [(9, 8, 7), (1, 2, 3)] [(255, 0, 0, 7), (0, 255, 0, 200)])))"
    by (rule combine_alpha_colour_mask [THEN conjunct1])
  have b: "combine_alpha (\<lambda>m d f. m) (ImRGB (2, 1) None [(9, 8, 7), (1, 2, 3)])
       (ImRGB (2, 1) None [(255, 0, 0), (0, 0, 255)]) True ''error'' ''nearest'' =
     Inr (ImRGBA (2, 1) (map (\<lambda>((r, g, b), q). (r, g, b, if True then 255 - luma q else luma q))
          (zip [(9, 8, 7), (1, 2, 3)] [(255, 0, 0), (0, 0, 255)])))"
    by (rule combine_alpha_colour_mask [THEN conjunct2, THEN conjunct1])
  show ?thesis unfolding a b by (simp add: drop_alpha_def l)
qed


section \<open>Properties of the generate engine\<close>

text \<open>The luminance of every pixel of an image that has a converter, in row order.\<close>

fun luminances :: "image \<Rightarrow> byte list" where
  "luminances (ImL d tr px) = map (luma \<circ> grey) px"
| "luminances (ImP d pal px) = map (luma \<circ> drop_alpha \<circ> pal) px"
| "luminances (ImRGB d tr px) = map luma px"
| "luminances (ImRGBA d px) = map (luma \<circ> drop_alpha) px"

lemma generate_alpha_luminance_samples:
  assumes "has_converter img"
  shows "\<exists>tr. generate_alpha_luminance img = Inr (ImL (size_of img) tr (luminances img))"
  using assms
  by (cases img) (simp_all add: generate_alpha_luminance_def ensure_rgb_def has_converter_def)

lemma generate_alpha_luminance_no_converter:
  assumes "\<not> has_converter img"
  shows "generate_alpha_luminance img = Inl ValueError"
  using assms
  by (cases img) (simp_all add: generate_alpha_luminance_def ensure_rgb_def has_converter_def)

lemma generate_alpha_threshold_eq:
  assumes "has_converter img"
  shows "generate_alpha_threshold img t =
     (if 0 \<le> t \<and> t \<le> 255
      then Inr (ImL (size_of img) None
             (map (\<lambda>l. if t \<le> uint l then 255 else 0) (luminances img)))
      else Inl (AlphaIOError ThresholdRange))"
proof -
  obtain tr where "generate_alpha_luminance img = Inr (ImL (size_of img) tr (luminances img))"
    using generate_alpha_luminance_samples [OF assms] by blast
  then show ?thesis
    by (cases "size_of img")
       (simp add: generate_alpha_threshold_def np_where_def fromarray_L_def)
qed

lemma generate_alpha_threshold_range:
  "generate_alpha_threshold img t = Inl (AlphaIOError ThresholdRange) \<longleftrightarrow> t < 0 \<or> 255 < t"
proof (cases "has_converter img")
  case True
  then show ?thesis by (auto simp add: generate_alpha_threshold_eq)
next
  case False
  then show ?thesis
    by (auto simp add: generate_alpha_threshold_def generate_alpha_luminance_no_converter)
qed

lemma byte_range: "0 \<le> uint (v :: byte) \<and> uint v \<le> 255"
  using uint_lt2p [of v] by simp

lemma byte_top: "255 \<le> uint (v :: byte) \<longleftrightarrow> v = 255"
proof
  assume "255 \<le> uint v"
  with byte_range [of v] have "uint v = uint (255 :: byte)" by simp
  then show "v = 255" by (simp only: word_uint_eq_iff)
qed simp

text \<open>
  C6. \<open>generate_alpha_threshold img t\<close> gives the error whose message says that the
  threshold is out of range exactly when \<open>t\<close> is outside 0..255, in particular for
  \<open>t = -1\<close> and \<open>t = 256\<close>, whatever the image. For an image the library can
  convert, that is the only failure, and for \<open>t\<close> in range the mask has the size of
  the image and is 255 at every pixel whose luminance is at least \<open>t\<close> and 0
  elsewhere: for \<open>t = 0\<close> every pixel is 255, for \<open>t = 255\<close> exactly the pixels of
  luminance 255 are.
\<close>

theorem generate_alpha_threshold_spec:
  "(generate_alpha_threshold img t = Inl (AlphaIOError ThresholdRange) \<longleftrightarrow> t < 0 \<or> 255 < t)
   \<and> generate_alpha_threshold img (- 1) = Inl (AlphaIOError ThresholdRange)
   \<and> generate_alpha_threshold img 256 = Inl (AlphaIOError ThresholdRange)
   \<and> (has_converter img \<longrightarrow>
       ((\<exists>e. generate_alpha_threshold img t = Inl e) \<longleftrightarrow> t < 0 \<or> 255 < t)
       \<and> generate_alpha_threshold img t =
           (if 0 \<le> t \<and> t \<le> 255
            then Inr (ImL (size_of img) None
                   (map (\<lambda>l. if t \<le> uint l then 255 else 0) (luminances img)))
            else Inl (AlphaIOError ThresholdRange))
       \<and> generate_alpha_threshold img 0 =
           Inr (ImL (size_of img) None (map (\<lambda>l. 255) (luminances img)))
       \<and> generate_alpha_threshold img 255 =
           Inr (ImL (size_of img) None
             (map (\<lambda>l. if l = 255 then 255 else 0) (luminances img))))"
proof -
  have a: "generate_alpha_threshold img (- 1) = Inl (AlphaIOError ThresholdRange)"
    "generate_alpha_threshold img 256 = Inl (AlphaIOError ThresholdRange)"
    by (simp_all add: generate_alpha_threshold_def)
  have b: "has_converter img \<Longrightarrow>
       ((\<exists>e. generate_alpha_threshold img t = Inl e) \<longleftrightarrow> t < 0 \<or> 255 < t)"
    by (auto simp add: generate_alpha_threshold_eq)
  have c: "has_converter img \<Longrightarrow> generate_alpha_threshold img 0 =
           Inr (ImL (size_of img) None (map (\<lambda>l. 255) (luminances img)))"
    by (simp add: generate_alpha_threshold_eq byte_range)
  have d: "has_converter img \<Longrightarrow> generate_alpha_threshold img 255 =
           Inr (ImL (size_of img) None
             (map (\<lambda>l. if l = 255 then 255 else 0) (luminances img)))"
    by (simp add: generate_alpha_threshold_eq byte_top)
  show ?thesis
    using generate_alpha_threshold_range [of img t] a b c d
      generate_alpha_threshold_eq [of img t]
    by blast
qed

theorem generate_alpha_threshold_spec_witness:
  "has_converter (ImRGB (3, 1) None [(0, 0, 0), (255, 255, 255), (255, 255, 254)])
   \<and> generate_alpha_threshold
        (ImRGB (3, 1) None [(0, 0, 0), (255, 255, 255), (255, 255, 254)]) 255 =
       Inr (ImL (3, 1) None [0, 255, 255])
   \<and> generate_alpha_threshold
        (ImRGB (3, 1) None [(0, 0, 0), (255, 255, 255), (255, 255, 254)]) 0 =
       Inr (ImL (3, 1) None [255, 255, 255])
   \<and> generate_alpha_threshold
        (ImRGB (3, 1) None [(0, 0, 0), (255, 255, 255), (255, 255, 254)]) 256 =
       Inl (AlphaIOError ThresholdRange)"
proof -
  have h: "has_converter (ImRGB (3, 1) None [(0, 0, 0), (255, 255, 255), (255, 255, 254)])"
    by (simp add: has_converter_def)
  have l: "luma (0, 0, 0) = 0" "luma (255, 255, 255) = 255" "luma (255, 255, 254) = 255"
    by (simp_all add: luma_def)
  show ?thesis
    using h generate_alpha_threshold_spec
      [of "ImRGB (3, 1) None [(0, 0, 0), (255, 255, 255), (255, 255, 254)]" 255]
    by (simp add: l)
qed

lemma word16_of_small:
  assumes "- 32768 \<le> d" "d \<le> 32767"
  shows "sint (word_of_int d :: int16) = d"
  using assms by (simp add: sint_sbintrunc' signed_take_bit_int_eq_self)

lemma diff16:
  "(ucast (r :: byte) :: int16) - word_of_int k = word_of_int (uint r - k)"
proof -
  have "(ucast r :: int16) = word_of_int (uint r)" by (rule ucast_eq)
  then show ?thesis by (simp only: wi_hom_sub)
qed

lemma sint_abs16_small:
  assumes "- 255 \<le> d" "d \<le> 255"
  shows "sint (abs16 (word_of_int d :: int16)) = \<bar>d\<bar>"
proof -
  have sx: "sint (word_of_int d :: int16) = d"
    using assms by (intro word16_of_small) linarith+
  have snx: "sint (word_of_int (- d) :: int16) = - d"
    using assms by (intro word16_of_small) linarith+
  have neg: "- (word_of_int d :: int16) = word_of_int (- d)"
    by (simp only: wi_hom_neg)
  show ?thesis
  proof (cases "d < 0")
    case True
    then have "abs16 (word_of_int d :: int16) = word_of_int (- d)"
      by (simp only: abs16_def sx neg if_True)
    then have "sint (abs16 (word_of_int d :: int16)) = - d"
      by (simp only: snx)
    with True show ?thesis by linarith
  next
    case False
    then have "abs16 (word_of_int d :: int16) = word_of_int d"
      by (simp only: abs16_def sx if_False)
    then have "sint (abs16 (word_of_int d :: int16)) = d"
      by (simp only: sx)
    with False show ?thesis by linarith
  qed
qed

lemma sint_abs16_diff:
  assumes "0 \<le> k" "k \<le> 255"
  shows "sint (abs16 ((ucast (r :: byte) :: int16) - word_of_int k)) = \<bar>uint r - k\<bar>"
proof -
  have "- 255 \<le> uint r - k" "uint r - k \<le> 255"
    using assms byte_range [of r] by linarith+
  then show ?thesis by (simp only: diff16 sint_abs16_small)
qed

lemma sint_max16: "sint (max16 x y) = max (sint x) (sint y)"
  by (simp add: max16_def max_def)

lemma np_int16_color: "0 \<le> k \<Longrightarrow> k \<le> 255 \<Longrightarrow> np_int16 k = Inr (word_of_int k)"
  by (simp add: np_int16_def)

text \<open>
  C9. For an RGB image, a key colour with components in 0..255 and a tolerance in
  0..255, the mask of \<open>generate_alpha_colorkey\<close> has the size of the image and is, at
  every pixel, 0 where the greatest of the three absolute differences to the key,
  taken as integers, is at most the tolerance, and 255 elsewhere: the 16-bit signed
  arithmetic of the code does not overflow on such values. A tolerance outside 0..255
  gives the error whose message says so.
\<close>

theorem generate_alpha_colorkey_spec:
  assumes "0 \<le> kr" "kr \<le> 255" "0 \<le> kg" "kg \<le> 255" "0 \<le> kb" "kb \<le> 255"
  shows "generate_alpha_colorkey (ImRGB (w, h) tr px) (kr, kg, kb) tol =
     (if 0 \<le> tol \<and> tol \<le> 255
      then Inr (ImL (w, h) None (map (\<lambda>(r, g, b).
             if max (max \<bar>uint r - kr\<bar> \<bar>uint g - kg\<bar>) \<bar>uint b - kb\<bar> \<le> tol
             then 0 else 255) px))
      else Inl (AlphaIOError ToleranceRange))"
  using assms
  by (auto simp add: generate_alpha_colorkey_def ensure_rgb_def np_where_def fromarray_L_def
      np_int16_color sint_max16 sint_abs16_diff o_def split_def)

theorem generate_alpha_colorkey_spec_witness:
  "generate_alpha_colorkey (ImRGB (2, 1) None [(0, 0, 0), (10, 200, 30)]) (5, 5, 5) 5 =
     Inr (ImL (2, 1) None [0, 255])
   \<and> generate_alpha_colorkey (ImRGB (2, 1) None [(0, 0, 0), (10, 200, 30)]) (5, 5, 5) 256 =
     Inl (AlphaIOError ToleranceRange)"
  using generate_alpha_colorkey_spec [of 5 5 5 2 1 None "[(0, 0, 0), (10, 200, 30)]" 5]
    generate_alpha_colorkey_spec [of 5 5 5 2 1 None "[(0, 0, 0), (10, 200, 30)]" 256]
  by simp


section \<open>Properties of the pairing resolver\<close>

text \<open>
  The keys of a list of paths on one side: the keys \<open>key_for_path\<close> gives to those
  of them that are image files.
\<close>

definition keys_of ::
  "lowercase \<Rightarrow> filesystem \<Rightarrow> PairingRule \<Rightarrow> bool \<Rightarrow> path list \<Rightarrow> string set" where
  "keys_of lower fs rule is_alpha paths =
     {k. \<exists>p \<in> set paths. is_image_file lower fs p \<and> key_for_path lower p rule is_alpha = Inr k}"

lemma path_suffix_no_name: "path_name p = [] \<Longrightarrow> path_suffix p = []"
  by (simp add: path_suffix_def rfind_def)

text \<open>
  An image file has a suffix, so a name. Here \<open>lower\<close> is any function that maps the
  empty string only to strings outside the supported extensions, as every
  lower-casing does.
\<close>

lemma image_file_name:
  assumes "is_image_file lower fs p" "lower [] \<notin> set SUPPORTED_IMAGE_EXTS"
  shows "path_name p \<noteq> []"
proof
  assume "path_name p = []"
  then have "path_suffix p = []" by (rule path_suffix_no_name)
  with assms show False by (simp add: is_image_file_def)
qed

lemma key_for_path_total:
  assumes "path_name p \<noteq> []"
  shows "\<exists>k. key_for_path lower p rule is_alpha = Inr k"
proof -
  have w: "with_suffix_empty p = Inr (butlast p @ [path_stem p])"
    using assms by (simp add: with_suffix_empty_def)
  show ?thesis
  proof (cases "mode rule = ''suffix''")
    case True
    then show ?thesis by (simp add: key_for_path_def Let_def)
  next
    case ns: False
    show ?thesis
    proof (cases "mode rule = ''folder''")
      case False
      with ns show ?thesis by (simp add: key_for_path_def Let_def)
    next
      case True
      with ns w show ?thesis
        by (simp add: key_for_path_def Let_def split: sum.split)
    qed
  qed
qed

definition good_map ::
  "lowercase \<Rightarrow> filesystem \<Rightarrow> PairingRule \<Rightarrow> bool \<Rightarrow> (string \<times> path) list \<Rightarrow> bool" where
  "good_map lower fs rule is_alpha m \<longleftrightarrow>
     distinct (map fst m)
     \<and> (\<forall>(k, p) \<in> set m. is_image_file lower fs p \<and> key_for_path lower p rule is_alpha = Inr k)"

lemma good_map_empty: "good_map lower fs rule b []"
  by (simp add: good_map_def)

lemma good_map_setdefault:
  assumes "good_map lower fs rule b d" "is_image_file lower fs p"
    "key_for_path lower p rule b = Inr k"
  shows "good_map lower fs rule b (setdefault d k p)"
  using assms by (auto simp: good_map_def setdefault_def)

lemma keys_setdefault: "fst ` set (setdefault d k p) = insert k (fst ` set d)"
  by (auto simp: setdefault_def)

lemma keys_of_Cons:
  "keys_of lower fs rule b (p # ps) =
     (if is_image_file lower fs p
      then (case key_for_path lower p rule b of Inr k \<Rightarrow> {k} | Inl e \<Rightarrow> {})
             \<union> keys_of lower fs rule b ps
      else keys_of lower fs rule b ps)"
  by (auto simp: keys_of_def split: sum.splits)

lemma build_map_inv:
  assumes "good_map lower fs rule b d" "lower [] \<notin> set SUPPORTED_IMAGE_EXTS"
  shows "\<exists>m. build_map lower fs rule b ps d = Inr m \<and> good_map lower fs rule b m
           \<and> fst ` set m = fst ` set d \<union> keys_of lower fs rule b ps"
  using assms(1)
proof (induction ps arbitrary: d)
  case Nil
  then show ?case by (simp add: keys_of_def)
next
  case (Cons p ps)
  show ?case
  proof (cases "is_image_file lower fs p")
    case False
    with Cons.IH [OF Cons.prems] show ?thesis by (simp add: keys_of_Cons)
  next
    case True
    then obtain k where k: "key_for_path lower p rule b = Inr k"
      using key_for_path_total [OF image_file_name [OF True assms(2)]] by blast
    have "good_map lower fs rule b (setdefault d k p)"
      using Cons.prems True k by (rule good_map_setdefault)
    from Cons.IH [OF this] obtain m where
      m: "build_map lower fs rule b ps (setdefault d k p) = Inr m" "good_map lower fs rule b m"
         "fst ` set m = fst ` set (setdefault d k p) \<union> keys_of lower fs rule b ps"
      by blast
    have "fst ` set m = fst ` set d \<union> keys_of lower fs rule b (p # ps)"
      using m(3) True k by (simp add: keys_setdefault keys_of_Cons)
    with m True k show ?thesis by simp
  qed
qed

lemma length_pairs:
  "length (concat (map (\<lambda>(k, p). case map_of am k of Some a \<Rightarrow> [g k p a] | None \<Rightarrow> []) rm))
     = length (filter (\<lambda>(k, p). k \<in> fst ` set am) rm)"
proof (induction rm)
  case Nil
  then show ?case by simp
next
  case (Cons x rm)
  obtain k p where x: "x = (k, p)" by (cases x)
  show ?case
  proof (cases "map_of am k")
    case None
    then have "k \<notin> fst ` set am" by (simp add: map_of_eq_None_iff)
    with None Cons x show ?thesis by simp
  next
    case (Some a)
    then have "k \<in> fst ` set am" by (metis map_of_eq_None_iff option.distinct(1))
    with Some Cons x show ?thesis by simp
  qed
qed

lemma set_pairs:
  "x \<in> set (concat (map (\<lambda>(k, p). case map_of am k of Some a \<Rightarrow> [g k p a] | None \<Rightarrow> []) rm))
     \<longleftrightarrow> (\<exists>k p a. x = g k p a \<and> (k, p) \<in> set rm \<and> map_of am k = Some a)"
proof
  assume "x \<in> set (concat (map (\<lambda>(k, p). case map_of am k of Some a \<Rightarrow> [g k p a] | None \<Rightarrow> []) rm))"
  then obtain k p where kp: "(k, p) \<in> set rm"
    and x: "x \<in> set (case map_of am k of Some a \<Rightarrow> [g k p a] | None \<Rightarrow> [])"
    by auto
  then show "\<exists>k p a. x = g k p a \<and> (k, p) \<in> set rm \<and> map_of am k = Some a"
    by (cases "map_of am k") auto
next
  assume "\<exists>k p a. x = g k p a \<and> (k, p) \<in> set rm \<and> map_of am k = Some a"
  then obtain k p a where "x = g k p a" "(k, p) \<in> set rm" "map_of am k = Some a" by blast
  then show "x \<in> set (concat (map (\<lambda>(k, p). case map_of am k of Some a \<Rightarrow> [g k p a] | None \<Rightarrow> []) rm))"
    by force
qed

lemma length_filter_keys:
  assumes "distinct (map fst m)"
  shows "length (filter (\<lambda>(k, p). k \<in> S) m) = card (fst ` set m \<inter> S)"
proof -
  have d: "distinct (map fst (filter (\<lambda>(k, p). k \<in> S) m))"
    using assms by (rule distinct_map_filter)
  have "length (filter (\<lambda>(k, p). k \<in> S) m) = length (map fst (filter (\<lambda>(k, p). k \<in> S) m))"
    by simp
  also have "\<dots> = card (set (map fst (filter (\<lambda>(k, p). k \<in> S) m)))"
    using d by (simp only: distinct_card)
  also have "set (map fst (filter (\<lambda>(k, p). k \<in> S) m)) = fst ` set m \<inter> S"
    by force
  finally show ?thesis .
qed

lemma map_of_Some_iff: "(\<exists>a. map_of am k = Some a) \<longleftrightarrow> k \<in> fst ` set am"
  using map_of_eq_None_iff [of am k] by (cases "map_of am k") auto

lemma used_alpha_set:
  "set (concat (map (\<lambda>(k, p). case map_of am k of Some a \<Rightarrow> [k] | None \<Rightarrow> []) rm))
     = fst ` set rm \<inter> fst ` set am"
proof -
  have "\<And>x. x \<in> set (concat (map (\<lambda>(k, p). case map_of am k of Some a \<Rightarrow> [k] | None \<Rightarrow> []) rm))
      \<longleftrightarrow> x \<in> fst ` set rm \<inter> fst ` set am"
  proof -
    fix x
    have "(\<exists>k p a. x = k \<and> (k, p) \<in> set rm \<and> map_of am k = Some a)
       \<longleftrightarrow> (\<exists>p. (x, p) \<in> set rm) \<and> (\<exists>a. map_of am x = Some a)"
      by blast
    also have "\<dots> \<longleftrightarrow> x \<in> fst ` set rm \<inter> fst ` set am"
      unfolding map_of_Some_iff by force
    finally show "x \<in> set (concat (map (\<lambda>(k, p). case map_of am k of Some a \<Rightarrow> [k] | None \<Rightarrow> []) rm))
      \<longleftrightarrow> x \<in> fst ` set rm \<inter> fst ` set am"
      unfolding set_pairs [where g = "\<lambda>k p a. k"] .
  qed
  then show ?thesis by blast
qed

text \<open>The keys of the paths of an output list, on one side.\<close>

definition key_set :: "lowercase \<Rightarrow> PairingRule \<Rightarrow> bool \<Rightarrow> path list \<Rightarrow> string set" where
  "key_set lower rule is_alpha paths =
     {k. \<exists>p \<in> set paths. key_for_path lower p rule is_alpha = Inr k}"

lemma key_set_cong: "set ps = set qs \<Longrightarrow> key_set lower rule b ps = key_set lower rule b qs"
  by (simp add: key_set_def)

lemma key_set_values:
  assumes "good_map lower fs rule b m"
  shows "key_set lower rule b (map snd (filter (\<lambda>(k, p). Q k) m)) = fst ` set m \<inter> {k. Q k}"
proof
  show "key_set lower rule b (map snd (filter (\<lambda>(k, p). Q k) m)) \<subseteq> fst ` set m \<inter> {k. Q k}"
  proof
    fix k
    assume "k \<in> key_set lower rule b (map snd (filter (\<lambda>(k, p). Q k) m))"
    then obtain k' p where kp: "(k', p) \<in> set m" "Q k'" "key_for_path lower p rule b = Inr k"
      by (auto simp: key_set_def)
    from assms kp(1) have "key_for_path lower p rule b = Inr k'"
      by (auto simp: good_map_def)
    with kp have "k' = k" by simp
    with kp show "k \<in> fst ` set m \<inter> {k. Q k}" by force
  qed
next
  show "fst ` set m \<inter> {k. Q k} \<subseteq> key_set lower rule b (map snd (filter (\<lambda>(k, p). Q k) m))"
  proof
    fix k
    assume "k \<in> fst ` set m \<inter> {k. Q k}"
    then obtain p where kp: "(k, p) \<in> set m" "Q k" by auto
    from assms kp(1) have "key_for_path lower p rule b = Inr k"
      by (auto simp: good_map_def)
    with kp show "k \<in> key_set lower rule b (map snd (filter (\<lambda>(k, p). Q k) m))"
      by (force simp: key_set_def)
  qed
qed

lemma map_of_distinct_iff:
  assumes "distinct (map fst am)"
  shows "map_of am k = Some a \<longleftrightarrow> (k, a) \<in> set am"
  using assms by (simp add: map_of_eq_Some_iff)

lemma pairs_fst_set:
  "set (map fst (concat (map (\<lambda>(k, p). case map_of am k of Some a \<Rightarrow> [(p, a)] | None \<Rightarrow> []) rm)))
     = set (map snd (filter (\<lambda>(k, p). k \<in> fst ` set am) rm))"
proof -
  have "\<And>x. x \<in> fst ` set (concat (map (\<lambda>(k, p). case map_of am k of Some a \<Rightarrow> [(p, a)] | None \<Rightarrow> []) rm))
       \<longleftrightarrow> x \<in> snd ` {(k, p). (k, p) \<in> set rm \<and> k \<in> fst ` set am}"
  proof -
    fix x
    have "x \<in> fst ` set (concat (map (\<lambda>(k, p). case map_of am k of Some a \<Rightarrow> [(p, a)] | None \<Rightarrow> []) rm))
       \<longleftrightarrow> (\<exists>y. (x, y) \<in> set (concat (map (\<lambda>(k, p). case map_of am k of Some a \<Rightarrow> [(p, a)] | None \<Rightarrow> []) rm)))"
      by force
    also have "\<dots> \<longleftrightarrow> (\<exists>y k p a. (x, y) = (p, a) \<and> (k, p) \<in> set rm \<and> map_of am k = Some a)"
      unfolding set_pairs [where g = "\<lambda>k p a. (p, a)"] ..
    also have "\<dots> \<longleftrightarrow> (\<exists>k. (k, x) \<in> set rm \<and> (\<exists>a. map_of am k = Some a))"
      by blast
    also have "\<dots> \<longleftrightarrow> (\<exists>k. (k, x) \<in> set rm \<and> k \<in> fst ` set am)"
      unfolding map_of_Some_iff ..
    also have "\<dots> \<longleftrightarrow> x \<in> snd ` {(k, p). (k, p) \<in> set rm \<and> k \<in> fst ` set am}"
      by force
    finally show "x \<in> fst ` set (concat (map (\<lambda>(k, p). case map_of am k of Some a \<Rightarrow> [(p, a)] | None \<Rightarrow> []) rm))
       \<longleftrightarrow> x \<in> snd ` {(k, p). (k, p) \<in> set rm \<and> k \<in> fst ` set am}" .
  qed
  then have "fst ` set (concat (map (\<lambda>(k, p). case map_of am k of Some a \<Rightarrow> [(p, a)] | None \<Rightarrow> []) rm))
     = snd ` {(k, p). (k, p) \<in> set rm \<and> k \<in> fst ` set am}"
    by blast
  moreover have "set (filter (\<lambda>(k, p). k \<in> fst ` set am) rm)
      = {(k, p). (k, p) \<in> set rm \<and> k \<in> fst ` set am}"
    by auto
  ultimately show ?thesis by simp
qed

lemma pairs_snd_set:
  assumes "distinct (map fst am)"
  shows "set (map snd (concat (map (\<lambda>(k, p). case map_of am k of Some a \<Rightarrow> [(p, a)] | None \<Rightarrow> []) rm)))
     = set (map snd (filter (\<lambda>(k, a). k \<in> fst ` set rm) am))"
proof -
  have "\<And>y. y \<in> snd ` set (concat (map (\<lambda>(k, p). case map_of am k of Some a \<Rightarrow> [(p, a)] | None \<Rightarrow> []) rm))
       \<longleftrightarrow> y \<in> snd ` {(k, a). (k, a) \<in> set am \<and> k \<in> fst ` set rm}"
  proof -
    fix y
    have "y \<in> snd ` set (concat (map (\<lambda>(k, p). case map_of am k of Some a \<Rightarrow> [(p, a)] | None \<Rightarrow> []) rm))
       \<longleftrightarrow> (\<exists>x. (x, y) \<in> set (concat (map (\<lambda>(k, p). case map_of am k of Some a \<Rightarrow> [(p, a)] | None \<Rightarrow> []) rm)))"
      by force
    also have "\<dots> \<longleftrightarrow> (\<exists>x k p a. (x, y) = (p, a) \<and> (k, p) \<in> set rm \<and> map_of am k = Some a)"
      unfolding set_pairs [where g = "\<lambda>k p a. (p, a)"] ..
    also have "\<dots> \<longleftrightarrow> (\<exists>k. (\<exists>p. (k, p) \<in> set rm) \<and> map_of am k = Some y)"
      by blast
    also have "\<dots> \<longleftrightarrow> (\<exists>k. (\<exists>p. (k, p) \<in> set rm) \<and> (k, y) \<in> set am)"
      unfolding map_of_distinct_iff [OF assms] ..
    also have "\<dots> \<longleftrightarrow> y \<in> snd ` {(k, a). (k, a) \<in> set am \<and> k \<in> fst ` set rm}"
      by force
    finally show "y \<in> snd ` set (concat (map (\<lambda>(k, p). case map_of am k of Some a \<Rightarrow> [(p, a)] | None \<Rightarrow> []) rm))
       \<longleftrightarrow> y \<in> snd ` {(k, a). (k, a) \<in> set am \<and> k \<in> fst ` set rm}" .
  qed
  then have "snd ` set (concat (map (\<lambda>(k, p). case map_of am k of Some a \<Rightarrow> [(p, a)] | None \<Rightarrow> []) rm))
     = snd ` {(k, a). (k, a) \<in> set am \<and> k \<in> fst ` set rm}"
    by blast
  moreover have "set (filter (\<lambda>(k, a). k \<in> fst ` set rm) am)
      = {(k, a). (k, a) \<in> set am \<and> k \<in> fst ` set rm}"
    by auto
  ultimately show ?thesis by simp
qed

lemma paths_disjoint:
  assumes "good_map lower fs rule b m"
  shows "set (map snd (filter (\<lambda>(k, p). Q k) m)) \<inter> set (map snd (filter (\<lambda>(k, p). \<not> Q k) m)) = {}"
proof -
  have "\<And>p. p \<in> set (map snd (filter (\<lambda>(k, p). Q k) m)) \<Longrightarrow>
            p \<in> set (map snd (filter (\<lambda>(k, p). \<not> Q k) m)) \<Longrightarrow> False"
  proof -
    fix p
    assume "p \<in> set (map snd (filter (\<lambda>(k, p). Q k) m))"
    then obtain k where k: "(k, p) \<in> set m" "Q k" by auto
    assume "p \<in> set (map snd (filter (\<lambda>(k, p). \<not> Q k) m))"
    then obtain k' where k': "(k', p) \<in> set m" "\<not> Q k'" by auto
    from assms k(1) have "key_for_path lower p rule b = Inr k" by (auto simp: good_map_def)
    moreover from assms k'(1) have "key_for_path lower p rule b = Inr k'"
      by (auto simp: good_map_def)
    ultimately have "k = k'" by simp
    with k k' show False by simp
  qed
  then show ?thesis by blast
qed

lemma build_pairs_eq:
  assumes "lower [] \<notin> set SUPPORTED_IMAGE_EXTS"
  obtains rm am where
    "good_map lower fs rule False rm" "fst ` set rm = keys_of lower fs rule False rgb_paths"
    "good_map lower fs rule True am" "fst ` set am = keys_of lower fs rule True alpha_paths"
    "build_pairs lower fs rgb_paths alpha_paths rule =
       Inr (sort_key (\<lambda>t. str_path (fst t))
              (concat (map (\<lambda>(k, p). case map_of am k of Some a \<Rightarrow> [(p, a)] | None \<Rightarrow> []) rm)),
            sort_key str_path (map snd (filter (\<lambda>(k, p). k \<notin> fst ` set am) rm)),
            sort_key str_path (map snd (filter (\<lambda>(k, p). k \<notin> fst ` set rm) am)))"
proof -
  from build_map_inv [where lower = lower and fs = fs and rule = rule and b = False
      and d = "[]" and ps = rgb_paths, OF good_map_empty assms]
  obtain rm where rm: "build_map lower fs rule False rgb_paths [] = Inr rm"
    "good_map lower fs rule False rm" "fst ` set rm = keys_of lower fs rule False rgb_paths"
    by auto
  from build_map_inv [where lower = lower and fs = fs and rule = rule and b = True
      and d = "[]" and ps = alpha_paths, OF good_map_empty assms]
  obtain am where am: "build_map lower fs rule True alpha_paths [] = Inr am"
    "good_map lower fs rule True am" "fst ` set am = keys_of lower fs rule True alpha_paths"
    by auto
  let ?used = "concat (map (\<lambda>(k, p). case map_of am k of Some a \<Rightarrow> [k] | None \<Rightarrow> []) rm)"
  have u: "set ?used = fst ` set rm \<inter> fst ` set am" by (rule used_alpha_set)
  have f1: "filter (\<lambda>(k, p). k \<notin> set ?used \<and> k \<notin> fst ` set am) rm
          = filter (\<lambda>(k, p). k \<notin> fst ` set am) rm"
    unfolding u by (rule filter_cong) auto
  have f2: "filter (\<lambda>(k, p). k \<notin> set ?used) am = filter (\<lambda>(k, p). k \<notin> fst ` set rm) am"
    unfolding u by (rule filter_cong) force+
  have "build_pairs lower fs rgb_paths alpha_paths rule =
       Inr (sort_key (\<lambda>t. str_path (fst t))
              (concat (map (\<lambda>(k, p). case map_of am k of Some a \<Rightarrow> [(p, a)] | None \<Rightarrow> []) rm)),
            sort_key str_path (map snd (filter (\<lambda>(k, p). k \<notin> fst ` set am) rm)),
            sort_key str_path (map snd (filter (\<lambda>(k, p). k \<notin> fst ` set rm) am)))"
    unfolding build_pairs_def rm(1) am(1) sum.case Let_def f1 f2 ..
  with rm(2,3) am(2,3) show thesis by (rule that)
qed

lemma card_split:
  assumes "finite A"
  shows "card (A \<inter> B) + card (A \<inter> - B) = card A"
proof -
  have "card ((A \<inter> B) \<union> (A \<inter> - B)) = card (A \<inter> B) + card (A \<inter> - B)"
    using assms by (intro card_Un_disjoint) auto
  moreover have "(A \<inter> B) \<union> (A \<inter> - B) = A" by blast
  ultimately show ?thesis by simp
qed

lemma length_filter_split:
  assumes "distinct (map fst m)"
  shows "length (filter (\<lambda>(k, p). k \<in> S) m) + length (filter (\<lambda>(k, p). k \<notin> S) m)
           = card (fst ` set m)"
proof -
  have a: "length (filter (\<lambda>(k, p). k \<in> S) m) = card (fst ` set m \<inter> S)"
    using assms by (rule length_filter_keys)
  have "length (filter (\<lambda>(k, p). k \<in> - S) m) = card (fst ` set m \<inter> - S)"
    using assms by (rule length_filter_keys)
  then have b: "length (filter (\<lambda>(k, p). k \<notin> S) m) = card (fst ` set m \<inter> - S)"
    by simp
  have "finite (fst ` set m)" by simp
  from card_split [OF this, of S] show ?thesis unfolding a b .
qed

text \<open>
  C5. \<open>build_pairs\<close> returns for all input lists and every pairing rule. No RGB
  path is in both \<open>pairs\<close> and \<open>unpaired_rgb\<close>. The lengths of \<open>pairs\<close> and
  \<open>unpaired_rgb\<close> add up to the number of distinct keys of the RGB image files, those
  of \<open>pairs\<close> and \<open>unpaired_alpha\<close> to the number of distinct keys of the alpha image
  files. The two paths of a pair have the same key; the key sets of \<open>pairs\<close>,
  \<open>unpaired_rgb\<close> and \<open>unpaired_alpha\<close> are pairwise disjoint, and together they are
  the keys of the RGB side and of the alpha side. The lower-casing function is any
  one that leaves the empty string empty.
\<close>

theorem build_pairs_partition:
  assumes "lower [] = []"
  shows "\<exists>pairs unpaired_rgb unpaired_alpha.
       build_pairs lower fs rgb_paths alpha_paths rule = Inr (pairs, unpaired_rgb, unpaired_alpha)
     \<and> set (map fst pairs) \<inter> set unpaired_rgb = {}
     \<and> length pairs + length unpaired_rgb = card (keys_of lower fs rule False rgb_paths)
     \<and> length pairs + length unpaired_alpha = card (keys_of lower fs rule True alpha_paths)
     \<and> key_set lower rule True (map snd pairs) = key_set lower rule False (map fst pairs)
     \<and> key_set lower rule False (map fst pairs) \<inter> key_set lower rule False unpaired_rgb = {}
     \<and> key_set lower rule False (map fst pairs) \<inter> key_set lower rule True unpaired_alpha = {}
     \<and> key_set lower rule False unpaired_rgb \<inter> key_set lower rule True unpaired_alpha = {}
     \<and> key_set lower rule False (map fst pairs) \<union> key_set lower rule False unpaired_rgb
         = keys_of lower fs rule False rgb_paths
     \<and> key_set lower rule False (map fst pairs) \<union> key_set lower rule True unpaired_alpha
         = keys_of lower fs rule True alpha_paths"
proof -
  have l: "lower [] \<notin> set SUPPORTED_IMAGE_EXTS"
    unfolding assms by (simp add: SUPPORTED_IMAGE_EXTS_def)
  from build_pairs_eq [where lower = lower and fs = fs and rule = rule
      and rgb_paths = rgb_paths and alpha_paths = alpha_paths, OF l]
  obtain rm am where
    rm: "good_map lower fs rule False rm" and
    kr: "fst ` set rm = keys_of lower fs rule False rgb_paths" and
    am: "good_map lower fs rule True am" and
    ka: "fst ` set am = keys_of lower fs rule True alpha_paths" and
    bp: "build_pairs lower fs rgb_paths alpha_paths rule =
       Inr (sort_key (\<lambda>t. str_path (fst t))
              (concat (map (\<lambda>(k, p). case map_of am k of Some a \<Rightarrow> [(p, a)] | None \<Rightarrow> []) rm)),
            sort_key str_path (map snd (filter (\<lambda>(k, p). k \<notin> fst ` set am) rm)),
            sort_key str_path (map snd (filter (\<lambda>(k, p). k \<notin> fst ` set rm) am)))"
    by blast
  define P0 where
    "P0 = concat (map (\<lambda>(k, p). case map_of am k of Some a \<Rightarrow> [(p, a)] | None \<Rightarrow> []) rm)"
  define pairs where "pairs = sort_key (\<lambda>t. str_path (fst t)) P0"
  define ur where "ur = sort_key str_path (map snd (filter (\<lambda>(k, p). k \<notin> fst ` set am) rm))"
  define ua where "ua = sort_key str_path (map snd (filter (\<lambda>(k, p). k \<notin> fst ` set rm) am))"
  have drm: "distinct (map fst rm)" using rm by (simp add: good_map_def)
  have dam: "distinct (map fst am)" using am by (simp add: good_map_def)
  have bp': "build_pairs lower fs rgb_paths alpha_paths rule = Inr (pairs, ur, ua)"
    unfolding pairs_def ur_def ua_def P0_def by (rule bp)
  have sp: "set pairs = set P0" unfolding pairs_def by (rule set_sort)
  have lp: "length pairs = length P0" unfolding pairs_def by (rule length_sort)
  have sP1: "set (map fst pairs) = set (map snd (filter (\<lambda>(k, p). k \<in> fst ` set am) rm))"
  proof -
    have "set (map fst pairs) = set (map fst P0)" by (simp only: set_map sp)
    also have "\<dots> = set (map snd (filter (\<lambda>(k, p). k \<in> fst ` set am) rm))"
      unfolding P0_def by (rule pairs_fst_set)
    finally show ?thesis .
  qed
  have sP2: "set (map snd pairs) = set (map snd (filter (\<lambda>(k, a). k \<in> fst ` set rm) am))"
  proof -
    have "set (map snd pairs) = set (map snd P0)" by (simp only: set_map sp)
    also have "\<dots> = set (map snd (filter (\<lambda>(k, a). k \<in> fst ` set rm) am))"
      unfolding P0_def using dam by (rule pairs_snd_set)
    finally show ?thesis .
  qed
  have sUR: "set ur = set (map snd (filter (\<lambda>(k, p). k \<notin> fst ` set am) rm))"
    unfolding ur_def by (rule set_sort)
  have sUA: "set ua = set (map snd (filter (\<lambda>(k, p). k \<notin> fst ` set rm) am))"
    unfolding ua_def by (rule set_sort)
  have kP1: "key_set lower rule False (map fst pairs) = fst ` set rm \<inter> {k. k \<in> fst ` set am}"
    by (rule trans [OF key_set_cong [OF sP1] key_set_values [OF rm]])
  have kP2: "key_set lower rule True (map snd pairs) = fst ` set am \<inter> {k. k \<in> fst ` set rm}"
    by (rule trans [OF key_set_cong [OF sP2] key_set_values [OF am]])
  have kUR: "key_set lower rule False ur = fst ` set rm \<inter> {k. k \<notin> fst ` set am}"
    by (rule trans [OF key_set_cong [OF sUR] key_set_values [OF rm]])
  have kUA: "key_set lower rule True ua = fst ` set am \<inter> {k. k \<notin> fst ` set rm}"
    by (rule trans [OF key_set_cong [OF sUA] key_set_values [OF am]])
  have c1: "set (map fst pairs) \<inter> set ur = {}"
    unfolding sP1 sUR using rm by (rule paths_disjoint)
  have lP: "length P0 = length (filter (\<lambda>(k, p). k \<in> fst ` set am) rm)"
    unfolding P0_def by (rule length_pairs)
  have lUR: "length ur = length (filter (\<lambda>(k, p). k \<notin> fst ` set am) rm)"
    unfolding ur_def by simp
  have lUA: "length ua = length (filter (\<lambda>(k, p). k \<notin> fst ` set rm) am)"
    unfolding ua_def by simp
  have c2: "length pairs + length ur = card (keys_of lower fs rule False rgb_paths)"
    unfolding lp lP lUR kr [symmetric] using drm by (rule length_filter_split)
  have lP': "length P0 = length (filter (\<lambda>(k, p). k \<in> fst ` set rm) am)"
  proof -
    have "length P0 = card (fst ` set rm \<inter> fst ` set am)"
      unfolding lP using drm by (rule length_filter_keys)
    also have "\<dots> = card (fst ` set am \<inter> fst ` set rm)" by (simp only: Int_commute)
    also have "\<dots> = length (filter (\<lambda>(k, p). k \<in> fst ` set rm) am)"
      using dam by (rule length_filter_keys [symmetric])
    finally show ?thesis .
  qed
  have c3: "length pairs + length ua = card (keys_of lower fs rule True alpha_paths)"
    unfolding lp lP' lUA ka [symmetric] using dam by (rule length_filter_split)
  have c4: "key_set lower rule True (map snd pairs) = key_set lower rule False (map fst pairs)"
    unfolding kP1 kP2 by blast
  have c5: "key_set lower rule False (map fst pairs) \<inter> key_set lower rule False ur = {}"
    unfolding kP1 kUR by blast
  have c6: "key_set lower rule False (map fst pairs) \<inter> key_set lower rule True ua = {}"
    unfolding kP1 kUA by blast
  have c7: "key_set lower rule False ur \<inter> key_set lower rule True ua = {}"
    unfolding kUR kUA by blast
  have c8: "key_set lower rule False (map fst pairs) \<union> key_set lower rule False ur
         = keys_of lower fs rule False rgb_paths"
    unfolding kP1 kUR kr [symmetric] by blast
  have c9: "key_set lower rule False (map fst pairs) \<union> key_set lower rule True ua
         = keys_of lower fs rule True alpha_paths"
    unfolding kP1 kUA ka [symmetric] by blast
  show ?thesis
    by (intro exI conjI) (rule bp' c1 c2 c3 c4 c5 c6 c7 c8 c9)+
qed

text \<open>A file system without directories that holds the files of a list, all writable.\<close>

definition flat_fs :: "(path \<times> image) list \<Rightarrow> filesystem" where
  "flat_fs files =
     \<lparr>is_file = (\<lambda>p. p \<in> fst ` set files), is_dir = (\<lambda>p. False), rglob = (\<lambda>p. []),
      resolve = str_path, decode = map_of files, writable = (\<lambda>p. True)\<rparr>"

lemma build_pairs_example:
  "build_pairs ascii_lower
     (flat_fs [([''a.png''], ImRGB (1, 1) None [(1, 2, 3)]),
               ([''B.PNG''], ImRGB (1, 1) None [(1, 2, 3)]),
               ([''a_alpha.png''], ImL (1, 1) None [7]),
               ([''c_alpha.png''], ImL (1, 1) None [7]),
               ([''notes.txt''], ImL (1, 1) None [7])])
     [[''a.png''], [''B.PNG''], [''notes.txt''], [''missing.png''], [''a.png'']]
     [[''c_alpha.png''], [''a_alpha.png'']]
     default_rule
   = Inr ([([''a.png''], [''a_alpha.png''])], [[''B.PNG'']], [[''c_alpha.png'']])"
  by code_simp

theorem build_pairs_partition_witness:
  "ascii_lower [] = []
   \<and> build_pairs ascii_lower
       (flat_fs [([''a.png''], ImRGB (1, 1) None [(1, 2, 3)]),
                 ([''B.PNG''], ImRGB (1, 1) None [(1, 2, 3)]),
                 ([''a_alpha.png''], ImL (1, 1) None [7]),
                 ([''c_alpha.png''], ImL (1, 1) None [7]),
                 ([''notes.txt''], ImL (1, 1) None [7])])
       [[''a.png''], [''B.PNG''], [''notes.txt''], [''missing.png''], [''a.png'']]
       [[''c_alpha.png''], [''a_alpha.png'']]
       default_rule
     = Inr ([([''a.png''], [''a_alpha.png''])], [[''B.PNG'']], [[''c_alpha.png'']])
   \<and> card (keys_of ascii_lower
       (flat_fs [([''a.png''], ImRGB (1, 1) None [(1, 2, 3)]),
                 ([''B.PNG''], ImRGB (1, 1) None [(1, 2, 3)]),
                 ([''a_alpha.png''], ImL (1, 1) None [7]),
                 ([''c_alpha.png''], ImL (1, 1) None [7]),
                 ([''notes.txt''], ImL (1, 1) None [7])])
       default_rule False
       [[''a.png''], [''B.PNG''], [''notes.txt''], [''missing.png''], [''a.png'']]) = 2
   \<and> card (keys_of ascii_lower
       (flat_fs [([''a.png''], ImRGB (1, 1) None [(1, 2, 3)]),
                 ([''B.PNG''], ImRGB (1, 1) None [(1, 2, 3)]),
                 ([''a_alpha.png''], ImL (1, 1) None [7]),
                 ([''c_alpha.png''], ImL (1, 1) None [7]),
                 ([''notes.txt''], ImL (1, 1) None [7])])
       default_rule True [[''c_alpha.png''], [''a_alpha.png'']]) = 2"
proof -
  have l: "ascii_lower [] = []" by (simp add: ascii_lower_def)
  show ?thesis
    using build_pairs_partition [where lower = ascii_lower and fs = "flat_fs [([''a.png''], ImRGB (1, 1) None [(1, 2, 3)]),
                 ([''B.PNG''], ImRGB (1, 1) None [(1, 2, 3)]),
                 ([''a_alpha.png''], ImL (1, 1) None [7]),
                 ([''c_alpha.png''], ImL (1, 1) None [7]),
                 ([''notes.txt''], ImL (1, 1) None [7])]"
        and rgb_paths = "[[''a.png''], [''B.PNG''], [''notes.txt''], [''missing.png''], [''a.png'']]"
        and alpha_paths = "[[''c_alpha.png''], [''a_alpha.png'']]" and rule = default_rule, OF l]
    unfolding build_pairs_example using l by auto
qed


section \<open>Properties of the rounding to binary64\<close>

lemma round_even_int: "round_even (of_int k) = k"
  by (simp add: round_even_def)

lemma round_even_err: "\<bar>of_int (round_even y) - y\<bar> \<le> 1 / 2"
proof -
  have "of_int \<lfloor>y\<rfloor> \<le> y" "y < of_int \<lfloor>y\<rfloor> + 1" by linarith+
  then show ?thesis by (auto simp: round_even_def Let_def)
qed

lemma round_even_lower: "of_int k \<le> y \<Longrightarrow> k \<le> round_even y"
proof -
  assume a: "of_int k \<le> y"
  then have "k \<le> \<lfloor>y\<rfloor>" by (simp add: le_floor_iff)
  then show ?thesis by (auto simp: round_even_def Let_def)
qed

lemma round_even_upper: "y \<le> of_int k \<Longrightarrow> round_even y \<le> k"
proof -
  assume a: "y \<le> of_int k"
  show ?thesis
  proof (cases "y = of_int k")
    case True
    then show ?thesis by (simp add: round_even_int)
  next
    case False
    with a have "y < of_int k" by simp
    then have "\<lfloor>y\<rfloor> < k" by (simp add: floor_less_iff)
    then have "\<lfloor>y\<rfloor> + 1 \<le> k" by simp
    then show ?thesis by (auto simp: round_even_def Let_def)
  qed
qed

lemma round_even_mono: "x \<le> y \<Longrightarrow> round_even x \<le> round_even y"
proof -
  assume a: "x \<le> y"
  have fx: "of_int \<lfloor>x\<rfloor> \<le> x" "x < of_int \<lfloor>x\<rfloor> + 1" by linarith+
  have fy: "of_int \<lfloor>y\<rfloor> \<le> y" "y < of_int \<lfloor>y\<rfloor> + 1" by linarith+
  have le: "\<lfloor>x\<rfloor> \<le> \<lfloor>y\<rfloor>" using a by (rule floor_mono)
  show ?thesis
  proof (cases "\<lfloor>x\<rfloor> = \<lfloor>y\<rfloor>")
    case True
    with a show ?thesis by (auto simp: round_even_def Let_def)
  next
    case False
    with le have "\<lfloor>x\<rfloor> + 1 \<le> \<lfloor>y\<rfloor>" by simp
    moreover have "round_even x \<le> \<lfloor>x\<rfloor> + 1" by (auto simp: round_even_def Let_def)
    moreover have "\<lfloor>y\<rfloor> \<le> round_even y" by (auto simp: round_even_def Let_def)
    ultimately show ?thesis by linarith
  qed
qed


lemma scaled_bounds:
  assumes "x \<noteq> 0"
  shows "2 ^ 52 \<le> \<bar>x\<bar> / 2 powr of_int (ulp_exp x)" "\<bar>x\<bar> / 2 powr of_int (ulp_exp x) < 2 ^ 53"
proof -
  define l where "l = \<lfloor>log 2 \<bar>x\<bar>\<rfloor>"
  have ax: "0 < \<bar>x\<bar>" using assms by simp
  have l1: "of_int l \<le> log 2 \<bar>x\<bar>" unfolding l_def by linarith
  have l2: "log 2 \<bar>x\<bar> < of_int l + 1" unfolding l_def by linarith
  have p: "2 powr log 2 \<bar>x\<bar> = \<bar>x\<bar>" using ax by simp
  have lo: "(2::real) powr of_int l \<le> \<bar>x\<bar>"
    using powr_mono [OF l1, of 2] p by simp
  have hi: "\<bar>x\<bar> < (2::real) powr (of_int l + 1)"
    using powr_less_mono [OF l2, of 2] p by simp
  have s: "(2::real) powr of_int (ulp_exp x) = 2 powr of_int l / 2 ^ 52"
  proof -
    have "(2::real) powr of_int (ulp_exp x) = 2 powr (of_int l - 52)"
      by (simp add: ulp_exp_def l_def)
    also have "\<dots> = 2 powr of_int l / 2 powr 52" by (rule powr_diff)
    also have "2 powr (52::real) = 2 ^ 52" by simp
    finally show ?thesis .
  qed
  have pos: "0 < (2::real) powr of_int l" by simp
  have h2: "(2::real) powr (of_int l + 1) = 2 * 2 powr of_int l"
    by (simp add: powr_add)
  define q where "q = \<bar>x\<bar> / 2 powr of_int l"
  have e: "\<bar>x\<bar> / 2 powr of_int (ulp_exp x) = q * 2 ^ 52"
    unfolding s q_def by simp
  have q1: "1 \<le> q" unfolding q_def using lo pos by simp
  have q2: "q < 2" unfolding q_def using hi pos unfolding h2
    by (simp add: divide_less_eq)
  show "2 ^ 52 \<le> \<bar>x\<bar> / 2 powr of_int (ulp_exp x)"
    unfolding e using q1 by simp
  show "\<bar>x\<bar> / 2 powr of_int (ulp_exp x) < 2 ^ 53"
    unfolding e using q2 by simp
qed

lemma float64_err: "\<bar>float64 x - x\<bar> \<le> \<bar>x\<bar> / 2 ^ 53"
proof (cases "x = 0")
  case True
  then show ?thesis by (simp add: float64_def)
next
  case False
  define s :: real where "s = 2 powr of_int (ulp_exp x)"
  have sp: "0 < s" unfolding s_def by simp
  have "float64 x - x = (of_int (round_even (x / s)) - x / s) * s"
    using False sp by (simp add: float64_def s_def field_simps)
  then have "\<bar>float64 x - x\<bar> = \<bar>of_int (round_even (x / s)) - x / s\<bar> * s"
    using sp by (simp add: abs_mult)
  also have "\<dots> \<le> 1 / 2 * s"
    using round_even_err [of "x / s"] sp by (intro mult_right_mono) simp_all
  also have "\<dots> \<le> \<bar>x\<bar> / 2 ^ 53"
  proof -
    have "2 ^ 52 \<le> \<bar>x\<bar> / s" unfolding s_def using False by (rule scaled_bounds)
    then have "2 ^ 52 * s \<le> \<bar>x\<bar>" using sp by (simp add: le_divide_eq)
    then show ?thesis by simp
  qed
  finally show ?thesis .
qed

lemma float64_nonneg: "0 \<le> x \<Longrightarrow> 0 \<le> float64 x"
proof -
  assume a: "0 \<le> x"
  show ?thesis
  proof (cases "x = 0")
    case True
    then show ?thesis by (simp add: float64_def)
  next
    case False
    have "0 \<le> x / 2 powr of_int (ulp_exp x)" using a by simp
    then have "0 \<le> round_even (x / 2 powr of_int (ulp_exp x))"
      using round_even_lower [of 0] by simp
    with False show ?thesis by (simp add: float64_def)
  qed
qed

text \<open>A number that is a whole multiple of its unit in the last place is a float.\<close>

lemma float64_exact:
  assumes "x / 2 powr of_int (ulp_exp x) = of_int m"
  shows "float64 x = x"
proof (cases "x = 0")
  case True
  then show ?thesis by (simp add: float64_def)
next
  case False
  have "float64 x = of_int m * 2 powr of_int (ulp_exp x)"
    using False by (simp add: float64_def assms round_even_int)
  also have "\<dots> = x" unfolding assms [symmetric] by simp
  finally show ?thesis .
qed

lemma float64_of_int:
  assumes "\<bar>k\<bar> < 2 ^ 53"
  shows "float64 (of_int k) = of_int k"
proof (cases "k = 0")
  case True
  then show ?thesis by (simp add: float64_def)
next
  case False
  define x :: real where "x = of_int k"
  have x0: "x \<noteq> 0" using False by (simp add: x_def)
  have ax: "\<bar>x\<bar> < 2 ^ 53" using assms unfolding x_def
    by (metis of_int_abs of_int_less_numeral_power_cancel_iff)
  have ax1: "1 \<le> \<bar>x\<bar>" using False unfolding x_def
    by (metis of_int_abs abs_ge_zero abs_zero dual_order.antisym int_one_le_iff_zero_less of_int_1_le_iff zero_less_abs_iff)
  have "log 2 \<bar>x\<bar> < log 2 (2 ^ 53)" using ax ax1 by (simp del: log_pow_cancel)
  moreover have "log 2 ((2::real) ^ 53) = 53" by (simp del: power_numeral)
  ultimately have "log 2 \<bar>x\<bar> < 53" by (simp del: power_numeral)
  then have "\<lfloor>log 2 \<bar>x\<bar>\<rfloor> < 53" by (simp add: floor_less_iff)
  then have e: "ulp_exp x \<le> 0" by (simp add: ulp_exp_def)
  define n where "n = nat (- ulp_exp x)"
  have en: "ulp_exp x = - int n" using e by (simp add: n_def)
  have "(2::real) powr of_int (ulp_exp x) = 1 / 2 ^ n"
    unfolding en by (simp add: powr_minus powr_realpow divide_simps)
  then have "x / 2 powr of_int (ulp_exp x) = of_int (k * 2 ^ n)"
    by (simp add: x_def)
  then show ?thesis unfolding x_def [symmetric] by (rule float64_exact)
qed

lemma float64_mono:
  assumes "0 \<le> x" "x \<le> y"
  shows "float64 x \<le> float64 y"
proof (cases "x = 0")
  case True
  then show ?thesis using float64_nonneg [of y] assms by (simp add: float64_def)
next
  case False
  with assms have px: "0 < x" and py: "0 < y" by simp_all
  have x0: "x \<noteq> 0" and y0: "y \<noteq> 0" using px py by simp_all
  define sx :: real where "sx = 2 powr of_int (ulp_exp x)"
  define sy :: real where "sy = 2 powr of_int (ulp_exp y)"
  have sxp: "0 < sx" and syp: "0 < sy" unfolding sx_def sy_def by simp_all
  have fx: "float64 x = of_int (round_even (x / sx)) * sx"
    using x0 by (simp add: float64_def sx_def)
  have fy: "float64 y = of_int (round_even (y / sy)) * sy"
    using y0 by (simp add: float64_def sy_def)
  have "log 2 x \<le> log 2 y" using px assms(2) by simp
  then have le: "ulp_exp x \<le> ulp_exp y"
    using px py by (simp add: ulp_exp_def floor_mono)
  show ?thesis
  proof (cases "ulp_exp x = ulp_exp y")
    case True
    then have s: "sy = sx" by (simp add: sx_def sy_def)
    have "x / sx \<le> y / sx" using assms(2) sxp by (simp add: divide_right_mono)
    then have "round_even (x / sx) \<le> round_even (y / sx)" by (rule round_even_mono)
    then show ?thesis unfolding fx fy s using sxp by simp
  next
    case ne: False
    with le have lt: "ulp_exp x + 1 \<le> ulp_exp y" by simp
    have "x / sx < 2 ^ 53" using scaled_bounds(2) [OF x0] px by (simp add: sx_def)
    then have "x / sx \<le> of_int (2 ^ 53)" by simp
    then have "round_even (x / sx) \<le> 2 ^ 53" by (rule round_even_upper)
    then have "(of_int (round_even (x / sx)) :: real) \<le> 2 ^ 53"
      by (metis of_int_le_numeral_power_cancel_iff)
    then have a: "float64 x \<le> 2 ^ 53 * sx" unfolding fx using sxp by simp
    have "2 ^ 52 \<le> y / sy" using scaled_bounds(1) [OF y0] py by (simp add: sy_def)
    then have "of_int (2 ^ 52) \<le> y / sy" by simp
    then have "2 ^ 52 \<le> round_even (y / sy)" by (rule round_even_lower)
    then have "(2 ^ 52 :: real) \<le> of_int (round_even (y / sy))"
      by (metis numeral_power_le_of_int_cancel_iff)
    then have b: "2 ^ 52 * sy \<le> float64 y" unfolding fy using syp by simp
    from lt have "(of_int (ulp_exp x + 1) :: real) \<le> of_int (ulp_exp y)"
      by (simp only: of_int_le_iff)
    then have r: "of_int (ulp_exp x) + 1 \<le> (of_int (ulp_exp y) :: real)" by simp
    have "(2::real) powr (of_int (ulp_exp x) + 1) \<le> 2 powr of_int (ulp_exp y)"
      using r by (rule powr_mono) simp
    then have "2 * sx \<le> sy" unfolding sx_def sy_def by (simp add: powr_add)
    then have "2 ^ 53 * sx \<le> 2 ^ 52 * sy" by simp
    with a b show ?thesis by linarith
  qed
qed

section \<open>Properties of the alpha statistics\<close>

lemma byte_cases: "(v :: byte) = 0 \<or> v = 255 \<or> (0 < v \<and> v < 255)"
proof -
  have "v \<noteq> 255 \<Longrightarrow> v < 255"
    using byte_range [of v] byte_top [of v] by (simp add: word_less_def)
  then show ?thesis by (auto simp: word_neq_0_conv)
qed

lemma count_partition:
  "length (filter (\<lambda>v. v = 0) xs) + length (filter (\<lambda>v. v = 255) xs)
     + length (filter (\<lambda>v. 0 < v \<and> v < 255) xs) = length (xs :: byte list)"
proof (induction xs)
  case Nil
  then show ?case by simp
next
  case (Cons x xs)
  then show ?case using byte_cases [of x] by auto
qed

lemma float64_of_nat:
  assumes "n < 2 ^ 53"
  shows "float64 (real n) = real n"
proof -
  have "\<bar>int n\<bar> < 2 ^ 53" using assms by simp
  from float64_of_int [OF this] show ?thesis by simp
qed

lemma foldl_exact:
  assumes "\<And>n. n < B \<Longrightarrow> float64 (real n) = real n" "a + 255 * length xs < B"
  shows "foldl (\<lambda>a x. float64 (a + x)) (real a) (map (\<lambda>v. real (unat (v :: byte))) xs)
           = real (a + sum_list (map unat xs))"
  using assms(2)
proof (induction xs arbitrary: a)
  case Nil
  then show ?case by simp
next
  case (Cons x xs)
  have "int (unat x) = uint x" by simp
  then have "int (unat x) \<le> 255" using byte_range [of x] by (simp only:)
  then have ux: "unat x \<le> 255" by linarith
  have b: "a + unat x < B" using Cons.prems ux by simp
  have "float64 (real (a + unat x)) = real (a + unat x)" using b by (rule assms(1))
  then have s: "float64 (real a + real (unat x)) = real (a + unat x)" by simp
  have "(a + unat x) + 255 * length xs < B" using Cons.prems ux by simp
  from Cons.IH [OF this]
  have ih: "foldl (\<lambda>a x. float64 (a + x)) (real (a + unat x)) (map (\<lambda>v. real (unat v)) xs)
              = real (a + unat x + sum_list (map unat xs))" .
  have "foldl (\<lambda>a x. float64 (a + x)) (real a) (map (\<lambda>v. real (unat v)) (x # xs))
          = foldl (\<lambda>a x. float64 (a + x)) (float64 (real a + real (unat x)))
              (map (\<lambda>v. real (unat v)) xs)"
    by (simp only: list.map foldl_Cons)
  also have "\<dots> = real (a + unat x + sum_list (map unat xs))"
    by (simp only: s ih)
  also have "\<dots> = real (a + sum_list (map unat (x # xs)))"
    by (simp only: list.map sum_list.Cons add.assoc)
  finally show ?case .
qed

lemma fsum_exact:
  assumes "255 * length xs < 2 ^ 53"
  shows "fsum (map (\<lambda>v. real (unat (v :: byte))) xs) = real (sum_list (map unat xs))"
proof -
  have "0 + 255 * length xs < 2 ^ 53" using assms by simp
  from foldl_exact [where B = "2 ^ 53" and a = 0, OF float64_of_nat this]
  show ?thesis by (simp add: fsum_def)
qed

lemma sum_list_lower:
  assumes "\<And>x. x \<in> set xs \<Longrightarrow> a \<le> f x"
  shows "a * real (length xs) \<le> (\<Sum>x\<leftarrow>xs. (f x :: real))"
  using assms
proof (induction xs)
  case Nil
  then show ?case by simp
next
  case (Cons y ys)
  have "a \<le> f y" by (rule Cons.prems) simp
  moreover have "a * real (length ys) \<le> (\<Sum>x\<leftarrow>ys. f x)"
    by (rule Cons.IH) (simp add: Cons.prems)
  ultimately show ?case by (simp add: algebra_simps)
qed

lemma sum_list_upper:
  assumes "\<And>x. x \<in> set xs \<Longrightarrow> f x \<le> a"
  shows "(\<Sum>x\<leftarrow>xs. (f x :: real)) \<le> a * real (length xs)"
  using assms
proof (induction xs)
  case Nil
  then show ?case by simp
next
  case (Cons y ys)
  have "f y \<le> a" by (rule Cons.prems) simp
  moreover have "(\<Sum>x\<leftarrow>ys. f x) \<le> a * real (length ys)"
    by (rule Cons.IH) (simp add: Cons.prems)
  ultimately show ?case by (simp add: algebra_simps)
qed

lemma real_sum_unat: "real (sum_list (map unat xs)) = (\<Sum>v\<leftarrow>xs. real (unat v))"
  by (induction xs) simp_all

lemma arr_mean_eq:
  assumes "length (elems a) < 2 ^ 45"
  shows "arr_mean a = float64 ((\<Sum>v\<leftarrow>elems a. real (unat v)) / real (length (elems a)))"
proof -
  have "255 * length (elems a) < 255 * 2 ^ 45" using assms by simp
  also have "\<dots> < (2 :: nat) ^ 53" by simp
  finally have b: "255 * length (elems a) < 2 ^ 53" .
  have n: "length (elems a) < 2 ^ 53"
    using assms by (rule less_trans) simp
  show ?thesis
    unfolding arr_mean_def arr_size_def fsum_exact [OF b] float64_of_nat [OF n] real_sum_unat ..
qed

lemma pct_eq:
  assumes "c \<le> n" "n < 2 ^ 45"
  shows "float64 (float64 (float64 (real c) * 100) / float64 (real n))
           = float64 (real c * 100 / real n)"
proof -
  have c: "c < 2 ^ 53" using assms by (simp add: less_trans [of _ "2 ^ 45"])
  have "c * 100 < 2 ^ 45 * 100" using assms by simp
  also have "\<dots> < (2 :: nat) ^ 53" by simp
  finally have c100: "c * 100 < 2 ^ 53" .
  have t: "n < 2 ^ 53" using assms(2) by (rule less_trans) simp
  have "float64 (real c * 100) = float64 (real (c * 100))" by simp
  also have "\<dots> = real (c * 100)" using c100 by (rule float64_of_nat)
  finally have e: "float64 (real c * 100) = real c * 100" by simp
  show ?thesis
    unfolding float64_of_nat [OF c] e float64_of_nat [OF t] ..
qed

lemma float64_lower:
  assumes "0 \<le> x"
  shows "x - x / 2 ^ 53 \<le> float64 x"
proof -
  define u where "u = x / 2 ^ 53"
  have "\<bar>float64 x - x\<bar> \<le> u" using float64_err [of x] assms by (simp add: u_def)
  then show ?thesis unfolding u_def [symmetric] by linarith
qed

lemma float64_upper:
  assumes "0 \<le> x"
  shows "float64 x \<le> x + x / 2 ^ 53"
proof -
  define u where "u = x / 2 ^ 53"
  have "\<bar>float64 x - x\<bar> \<le> u" using float64_err [of x] assms by (simp add: u_def)
  then show ?thesis unfolding u_def [symmetric] by linarith
qed

lemma three_floats:
  assumes e: "0 \<le> ea" "0 \<le> eb" "0 \<le> ec" "ea + eb + ec = 100"
  shows "\<bar>float64 ea + float64 eb + float64 ec - 100\<bar> \<le> 100 / 2 ^ 53"
    and "\<bar>float64 (float64 (float64 ea + float64 eb) + float64 ec) - 100\<bar> \<le> 400 / 2 ^ 53"
proof -
  define a where "a = float64 ea"
  define b where "b = float64 eb"
  define c where "c = float64 ec"
  define s1 where "s1 = float64 (a + b)"
  define s2 where "s2 = float64 (s1 + c)"
  define ua where "ua = ea / 2 ^ 53"
  define ub where "ub = eb / 2 ^ 53"
  define uc where "uc = ec / 2 ^ 53"
  have "ua + ub + uc = (ea + eb + ec) / 2 ^ 53"
    unfolding ua_def ub_def uc_def by (simp only: add_divide_distrib)
  then have u1: "ua + ub + uc = 100 / 2 ^ 53" unfolding e(4) .
  have u2: "0 \<le> ua" "0 \<le> ub" "0 \<le> uc"
    using e unfolding ua_def ub_def uc_def by simp_all
  have u3: "ua + ub + uc \<le> 1" unfolding u1 by simp
  note u = u1 u2 u3
  have a: "ea - ua \<le> a" "a \<le> ea + ua" "0 \<le> a"
    unfolding a_def ua_def using e(1) by (rule float64_lower float64_upper float64_nonneg)+
  have b: "eb - ub \<le> b" "b \<le> eb + ub" "0 \<le> b"
    unfolding b_def ub_def using e(2) by (rule float64_lower float64_upper float64_nonneg)+
  have c: "ec - uc \<le> c" "c \<le> ec + uc" "0 \<le> c"
    unfolding c_def uc_def using e(3) by (rule float64_lower float64_upper float64_nonneg)+
  show "\<bar>float64 ea + float64 eb + float64 ec - 100\<bar> \<le> 100 / 2 ^ 53"
    unfolding a_def [symmetric] b_def [symmetric] c_def [symmetric] u(1) [symmetric]
    using a b c e(4) by linarith
  have ab: "0 \<le> a + b" using a(3) b(3) by simp
  define u1 where "u1 = (a + b) / 2 ^ 53"
  have s1: "a + b - u1 \<le> s1" "s1 \<le> a + b + u1" "0 \<le> s1"
    unfolding s1_def u1_def using ab by (rule float64_lower float64_upper float64_nonneg)+
  have s1c: "0 \<le> s1 + c" using s1(3) c(3) by simp
  define u2 where "u2 = (s1 + c) / 2 ^ 53"
  have s2: "s1 + c - u2 \<le> s2" "s2 \<le> s1 + c + u2"
    unfolding s2_def u2_def using s1c by (rule float64_lower float64_upper)+
  have ab101: "a + b \<le> 101" using a(2) b(2) e u by linarith
  have "(a + b) / 2 ^ 53 \<le> 101 / 2 ^ 53" using ab101 by (rule divide_right_mono) simp
  then have u1b: "u1 \<le> 101 / 2 ^ 53" unfolding u1_def .
  have "u1 \<le> 1" using u1b by simp
  then have "s1 + c \<le> 102" using s1(2) a(2) b(2) c(2) e u by linarith
  then have "(s1 + c) / 2 ^ 53 \<le> 102 / 2 ^ 53" by (rule divide_right_mono) simp
  then have u2b: "u2 \<le> 102 / 2 ^ 53" unfolding u2_def .
  have "\<bar>s2 - 100\<bar> \<le> u2 + u1 + (ua + ub + uc)"
    using s2 s1 a b c e(4) by linarith
  also have "\<dots> \<le> 102 / 2 ^ 53 + 101 / 2 ^ 53 + 100 / 2 ^ 53"
    using u2b u1b u(1) by linarith
  also have "\<dots> \<le> 400 / 2 ^ 53" by simp
  finally show "\<bar>float64 (float64 (float64 ea + float64 eb) + float64 ec) - 100\<bar> \<le> 400 / 2 ^ 53"
    unfolding s2_def s1_def a_def b_def c_def .
qed

text \<open>
  C8. For every alpha array that is not empty and has fewer than \<open>2\<^sup>4\<^sup>5\<close>
  samples, \<open>compute_alpha_stats\<close> returns statistics whose three percentages,
  added as real numbers, differ from 100 by at most \<open>100 / 2\<^sup>5\<^sup>3\<close>, and added as
  floats from left to right by at most \<open>400 / 2\<^sup>5\<^sup>3\<close>; and the minimum is at most
  the mean, the mean at most the maximum, both between 0 and 255. Each percentage is
  the float nearest to the exact percentage of its count; \<open>pct_mid\<close> counts the
  samples strictly between 0 and 255.
\<close>

theorem compute_alpha_stats_invariants:
  assumes "elems arr \<noteq> []" "length (elems arr) < 2 ^ 45"
  shows "\<exists>st. compute_alpha_stats arr = Inr st
    \<and> \<bar>pct_zero st + pct_255 st + pct_mid st - 100\<bar> \<le> 100 / 2 ^ 53
    \<and> \<bar>float64 (float64 (pct_zero st + pct_255 st) + pct_mid st) - 100\<bar> \<le> 400 / 2 ^ 53
    \<and> real_of_int (min_a st) \<le> mean st \<and> mean st \<le> real_of_int (max_a st)
    \<and> 0 \<le> min_a st \<and> max_a st \<le> 255
    \<and> pct_zero st = float64 (real (count_where (\<lambda>v. v = 0) arr) * 100 / real (arr_size arr))
    \<and> pct_255 st = float64 (real (count_where (\<lambda>v. v = 255) arr) * 100 / real (arr_size arr))
    \<and> pct_mid st = float64 (real (count_where (\<lambda>v. 0 < v \<and> v < 255) arr) * 100
                             / real (arr_size arr))"
proof -
  let ?xs = "elems arr"
  let ?n = "real (length ?xs)"
  define c0 where "c0 = count_where (\<lambda>v. v = 0) arr"
  define c1 where "c1 = count_where (\<lambda>v. v = 255) arr"
  define c2 where "c2 = count_where (\<lambda>v. 0 < v \<and> v < 255) arr"
  define mn where "mn = Min (set (map uint ?xs))"
  define mx where "mx = Max (set (map uint ?xs))"
  have n: "0 < ?n" using assms by simp
  have fin: "finite (set (map uint ?xs))" "set (map uint ?xs) \<noteq> {}" using assms by simp_all
  have lo: "real_of_int mn * ?n \<le> (\<Sum>v\<leftarrow>?xs. real (unat v))"
  proof (rule sum_list_lower)
    fix x assume "x \<in> set ?xs"
    then have "mn \<le> uint x" unfolding mn_def by (intro Min_le) auto
    then show "real_of_int mn \<le> real (unat x)"
      by (metis of_int_le_iff of_int_of_nat_eq uint_nat)
  qed
  have hi: "(\<Sum>v\<leftarrow>?xs. real (unat v)) \<le> real_of_int mx * ?n"
  proof (rule sum_list_upper)
    fix x assume "x \<in> set ?xs"
    then have "uint x \<le> mx" unfolding mx_def by (intro Max_ge) auto
    then show "real (unat x) \<le> real_of_int mx"
      by (metis of_int_le_iff of_int_of_nat_eq uint_nat)
  qed
  have mn0: "0 \<le> mn" unfolding mn_def using fin byte_range by (simp add: Min_ge_iff)
  have mx1: "mx \<le> 255" unfolding mx_def using fin byte_range by (simp add: Max_le_iff)
  have mnmx: "mn \<le> mx" unfolding mn_def mx_def using fin by (simp add: Min_le_iff)
  have q1: "real_of_int mn \<le> (\<Sum>v\<leftarrow>?xs. real (unat v)) / ?n"
    using lo n by (simp add: pos_le_divide_eq)
  have q2: "(\<Sum>v\<leftarrow>?xs. real (unat v)) / ?n \<le> real_of_int mx"
    using hi n by (simp add: pos_divide_le_eq)
  have fmn: "float64 (real_of_int mn) = real_of_int mn"
    using mn0 mnmx mx1 by (intro float64_of_int) simp
  have fmx: "float64 (real_of_int mx) = real_of_int mx"
    using mn0 mnmx mx1 by (intro float64_of_int) simp
  have mn0r: "0 \<le> real_of_int mn" using mn0 by simp
  have m1: "real_of_int mn \<le> arr_mean arr"
    unfolding arr_mean_eq [OF assms(2)]
    using float64_mono [OF mn0r q1] unfolding fmn .
  have m2: "arr_mean arr \<le> real_of_int mx"
    unfolding arr_mean_eq [OF assms(2)]
    using float64_mono [OF order_trans [OF mn0r q1] q2] unfolding fmx .
  have cnt: "c0 + c1 + c2 = length ?xs"
    unfolding c0_def c1_def c2_def count_where_def by (rule count_partition)
  have le: "c0 \<le> length ?xs" "c1 \<le> length ?xs" "c2 \<le> length ?xs"
    using cnt by simp_all
  have p0: "float64 (float64 (float64 (real c0) * 100) / float64 ?n) = float64 (real c0 * 100 / ?n)"
    using le(1) assms(2) by (rule pct_eq)
  have p1: "float64 (float64 (float64 (real c1) * 100) / float64 ?n) = float64 (real c1 * 100 / ?n)"
    using le(2) assms(2) by (rule pct_eq)
  have p2: "float64 (float64 (float64 (real c2) * 100) / float64 ?n) = float64 (real c2 * 100 / ?n)"
    using le(3) assms(2) by (rule pct_eq)
  have ex: "real c0 * 100 / ?n + real c1 * 100 / ?n + real c2 * 100 / ?n = 100"
  proof -
    have "real c0 * 100 / ?n + real c1 * 100 / ?n + real c2 * 100 / ?n
            = real (c0 + c1 + c2) * 100 / ?n"
      by (simp add: add_divide_distrib distrib_right)
    also have "\<dots> = 100" unfolding cnt using n by simp
    finally show ?thesis .
  qed
  have nn: "0 \<le> real c0 * 100 / ?n" "0 \<le> real c1 * 100 / ?n" "0 \<le> real c2 * 100 / ?n"
    by simp_all
  note tf = three_floats [OF nn ex]
  have st: "compute_alpha_stats arr =
     Inr \<lparr>width = snd (shape arr), height = fst (shape arr), min_a = mn, max_a = mx,
          mean = arr_mean arr, std = arr_std arr,
          pct_zero = float64 (real c0 * 100 / ?n),
          pct_255 = float64 (real c1 * 100 / ?n),
          pct_mid = float64 (real c2 * 100 / ?n)\<rparr>"
    using assms(1)
    unfolding compute_alpha_stats_def Let_def split_def arr_size_def
      c0_def [symmetric] c1_def [symmetric] c2_def [symmetric] mn_def [symmetric]
      mx_def [symmetric] p0 p1 p2
    by simp
  show ?thesis
    unfolding st using tf m1 m2 mn0 mx1 by (simp add: c0_def c1_def c2_def arr_size_def)
qed

lemma float64_numeral:
  assumes "(numeral k :: int) < 2 ^ 53"
  shows "float64 (numeral k) = numeral k"
proof -
  have "\<bar>numeral k :: int\<bar> < 2 ^ 53" using assms by simp
  from float64_of_int [OF this] show ?thesis by simp
qed

lemma float64_0: "float64 0 = 0"
  by (simp add: float64_def)

lemma float64_1: "float64 1 = 1"
  using float64_of_int [of 1] by simp

lemma compute_alpha_stats_example:
  "compute_alpha_stats \<lparr>shape = (2, 2), elems = [0, 255, 7, 255]\<rparr> =
     Inr \<lparr>width = 2, height = 2, min_a = 0, max_a = 255,
          mean = arr_mean \<lparr>shape = (2, 2), elems = [0, 255, 7, 255]\<rparr>,
          std = arr_std \<lparr>shape = (2, 2), elems = [0, 255, 7, 255]\<rparr>,
          pct_zero = 25, pct_255 = 50, pct_mid = 25\<rparr>"
  by (simp add: compute_alpha_stats_def count_where_def arr_size_def float64_numeral float64_1)

theorem compute_alpha_stats_invariants_witness:
  "elems \<lparr>shape = (2 :: nat, 2 :: nat), elems = [0, 255, 7, 255 :: byte]\<rparr> \<noteq> []
   \<and> length (elems \<lparr>shape = (2 :: nat, 2 :: nat), elems = [0, 255, 7, 255 :: byte]\<rparr>) < 2 ^ 45
   \<and> (\<exists>st. compute_alpha_stats \<lparr>shape = (2, 2), elems = [0, 255, 7, 255]\<rparr> = Inr st
        \<and> pct_zero st = 25 \<and> pct_255 st = 50 \<and> pct_mid st = 25
        \<and> \<bar>pct_zero st + pct_255 st + pct_mid st - 100\<bar> \<le> 100 / 2 ^ 53
        \<and> min_a st = 0 \<and> max_a st = 255
        \<and> 0 \<le> mean st \<and> mean st \<le> 255)"
proof -
  have h1: "elems \<lparr>shape = (2 :: nat, 2 :: nat), elems = [0, 255, 7, 255 :: byte]\<rparr> \<noteq> []"
    by simp
  have h2: "length (elems \<lparr>shape = (2 :: nat, 2 :: nat), elems = [0, 255, 7, 255 :: byte]\<rparr>)
              < 2 ^ 45"
    by simp
  show ?thesis
    using compute_alpha_stats_invariants [OF h1 h2] h1 h2
    unfolding compute_alpha_stats_example by simp
qed

section \<open>Properties of the validation rules\<close>

lemma compute_alpha_stats_returns:
  assumes "elems arr \<noteq> []"
  shows "\<exists>st. compute_alpha_stats arr = Inr st"
  using assms by (simp add: compute_alpha_stats_def split_def Let_def)

lemma compute_alpha_stats_empty: "elems arr = [] \<Longrightarrow> compute_alpha_stats arr = Inl ValueError"
  by (simp add: compute_alpha_stats_def)

lemma alpha_array_RGBA:
  "alpha_array (ImRGBA (w, h) px) =
     Inr (Some \<lparr>shape = (h, w), elems = map (\<lambda>(r, g, b, a). a) px\<rparr>)"
  by (simp add: alpha_array_def ensure_rgba_def)

lemma validate_alpha_file_unfold:
  assumes "load_image fs p = Inr img" "alpha_array img = Inr (Some arr)"
    "compute_alpha_stats arr = Inr st"
  shows "validate_alpha_file fs p rules =
       Inr \<lparr>path = str_path p, has_alpha = True,
            status = (if warn_pct_255 rules \<le> pct_255 st
                         \<or> warn_pct_zero rules \<le> pct_zero st
                         \<or> (std st < warn_std_lt rules
                             \<and> max_a st - min_a st \<le> warn_range_le rules)
                      then WARN else PASS),
            messages =
              (if warn_pct_255 rules \<le> pct_255 st then [AllOpaque (pct_255 st)] else [])
              @ (if warn_pct_zero rules \<le> pct_zero st
                 then [AllTransparent (pct_zero st)] else [])
              @ (if std st < warn_std_lt rules
                    \<and> max_a st - min_a st \<le> warn_range_le rules
                 then [NearConstant (std st) (max_a st - min_a st)] else []),
            stats = Some st\<rparr>"
  using assms by (simp add: validate_alpha_file_def)

text \<open>
  C7. When the file loads, the image has an alpha band as \<open>alpha_array\<close> finds it,
  and the band has a sample, \<open>validate_alpha_file\<close> returns a result. Its messages
  are the messages of the matching rules, in the order all-opaque, all-transparent,
  near-constant, each present exactly when its own rule matches. Its status is
  \<open>WARN\<close> when some rule matches and \<open>PASS\<close> when none does, so never \<open>FAIL\<close>.
\<close>

theorem validate_alpha_file_rules:
  assumes "load_image fs p = Inr img" "alpha_array img = Inr (Some arr)" "elems arr \<noteq> []"
  shows "\<exists>st. compute_alpha_stats arr = Inr st
     \<and> validate_alpha_file fs p rules =
       Inr \<lparr>path = str_path p, has_alpha = True,
            status = (if warn_pct_255 rules \<le> pct_255 st
                         \<or> warn_pct_zero rules \<le> pct_zero st
                         \<or> (std st < warn_std_lt rules
                             \<and> max_a st - min_a st \<le> warn_range_le rules)
                      then WARN else PASS),
            messages =
              (if warn_pct_255 rules \<le> pct_255 st then [AllOpaque (pct_255 st)] else [])
              @ (if warn_pct_zero rules \<le> pct_zero st
                 then [AllTransparent (pct_zero st)] else [])
              @ (if std st < warn_std_lt rules
                    \<and> max_a st - min_a st \<le> warn_range_le rules
                 then [NearConstant (std st) (max_a st - min_a st)] else []),
            stats = Some st\<rparr>"
proof -
  from compute_alpha_stats_returns [OF assms(3)]
  obtain st where st: "compute_alpha_stats arr = Inr st" ..
  from validate_alpha_file_unfold [OF assms(1,2) st, of rules] st
  show ?thesis by (intro exI conjI)
qed

lemma compute_alpha_stats_one_sample:
  "compute_alpha_stats \<lparr>shape = (1, 1), elems = [255]\<rparr> =
     Inr \<lparr>width = 1, height = 1, min_a = 255, max_a = 255, mean = 255, std = 0,
          pct_zero = 0, pct_255 = 100, pct_mid = 0\<rparr>"
  by (simp add: compute_alpha_stats_def count_where_def arr_size_def arr_mean_def arr_std_def
      fsum_def float64_numeral float64_1 float64_0)

theorem validate_alpha_file_rules_witness:
  "load_image (flat_fs [([''a.png''], ImRGBA (1, 1) [(10, 20, 30, 255)])]) [''a.png'']
     = Inr (ImRGBA (1, 1) [(10, 20, 30, 255)])
   \<and> alpha_array (ImRGBA (1, 1) [(10, 20, 30, 255)])
     = Inr (Some \<lparr>shape = (1, 1), elems = [255]\<rparr>)
   \<and> elems \<lparr>shape = (1 :: nat, 1 :: nat), elems = [255 :: byte]\<rparr> \<noteq> []
   \<and> validate_alpha_file (flat_fs [([''a.png''], ImRGBA (1, 1) [(10, 20, 30, 255)])]) [''a.png'']
       \<lparr>warn_pct_255 = 100, warn_pct_zero = 0, warn_std_lt = 1, warn_range_le = 0,
        fail_no_alpha = True\<rparr>
     = Inr \<lparr>path = ''a.png'', has_alpha = True, status = WARN,
            messages = [AllOpaque 100, AllTransparent 0, NearConstant 0 0],
            stats = Some \<lparr>width = 1, height = 1, min_a = 255, max_a = 255, mean = 255,
                           std = 0, pct_zero = 0, pct_255 = 100, pct_mid = 0\<rparr>\<rparr>
   \<and> validate_alpha_file (flat_fs [([''a.png''], ImRGBA (1, 1) [(10, 20, 30, 255)])]) [''a.png'']
       \<lparr>warn_pct_255 = 101, warn_pct_zero = 50, warn_std_lt = 0, warn_range_le = 2,
        fail_no_alpha = True\<rparr>
     = Inr \<lparr>path = ''a.png'', has_alpha = True, status = PASS, messages = [],
            stats = Some \<lparr>width = 1, height = 1, min_a = 255, max_a = 255, mean = 255,
                           std = 0, pct_zero = 0, pct_255 = 100, pct_mid = 0\<rparr>\<rparr>"
proof -
  let ?img = "ImRGBA (1, 1) [(10, 20, 30, 255)]"
  let ?fs = "flat_fs [([''a.png''], ?img)]"
  let ?arr = "\<lparr>shape = (1 :: nat, 1 :: nat), elems = [255 :: byte]\<rparr>"
  have h1: "load_image ?fs [''a.png''] = Inr ?img"
    by (simp add: load_image_def flat_fs_def)
  have h2: "alpha_array ?img = Inr (Some ?arr)"
    by (simp add: alpha_array_RGBA)
  have h3: "elems ?arr \<noteq> []" by simp
  have sp: "str_path [''a.png''] = ''a.png''"
    by (simp add: str_path_def is_root_def)
  have r1: "validate_alpha_file ?fs [''a.png'']
       \<lparr>warn_pct_255 = 100, warn_pct_zero = 0, warn_std_lt = 1, warn_range_le = 0,
        fail_no_alpha = True\<rparr>
     = Inr \<lparr>path = ''a.png'', has_alpha = True, status = WARN,
            messages = [AllOpaque 100, AllTransparent 0, NearConstant 0 0],
            stats = Some \<lparr>width = 1, height = 1, min_a = 255, max_a = 255, mean = 255,
                           std = 0, pct_zero = 0, pct_255 = 100, pct_mid = 0\<rparr>\<rparr>"
    using validate_alpha_file_rules [OF h1 h2 h3, where rules =
       "\<lparr>warn_pct_255 = 100, warn_pct_zero = 0, warn_std_lt = 1, warn_range_le = 0,
        fail_no_alpha = True\<rparr>"]
    unfolding compute_alpha_stats_one_sample sp by auto
  have r2: "validate_alpha_file ?fs [''a.png'']
       \<lparr>warn_pct_255 = 101, warn_pct_zero = 50, warn_std_lt = 0, warn_range_le = 2,
        fail_no_alpha = True\<rparr>
     = Inr \<lparr>path = ''a.png'', has_alpha = True, status = PASS, messages = [],
            stats = Some \<lparr>width = 1, height = 1, min_a = 255, max_a = 255, mean = 255,
                           std = 0, pct_zero = 0, pct_255 = 100, pct_mid = 0\<rparr>\<rparr>"
    using validate_alpha_file_rules [OF h1 h2 h3, where rules =
       "\<lparr>warn_pct_255 = 101, warn_pct_zero = 50, warn_std_lt = 0, warn_range_le = 2,
        fail_no_alpha = True\<rparr>"]
    unfolding compute_alpha_stats_one_sample sp by auto
  from h1 h2 h3 r1 r2 show ?thesis by (intro conjI)
qed


end
